theory Spec2Isabelle
  imports Main "HOL-Library.Char_ord" "HOL-Library.List_Lexorder"
begin

section \<open>JavaScript values\<close>

text \<open>
  The values that travel through the journal, the attribute lists and the property
  records. An object carries its identity (a reference number) next to its own
  enumerable fields, so that HOL equality on two objects is reference identity as long as
  references are unique, which is what \<open>===\<close> tests. A VNode reference is the
  address of the node in the store. Numbers are restricted to integers.
\<close>

datatype jsval =
    VUndefined
  | VNull
  | VBool bool
  | VNum int
  | VStr string
  | VNode nat
  | VQrl string
  | VObj nat "(string \<times> jsval) list"

type_synonym attrs = "(string \<times> jsval) list"

text \<open>\<open>a == b\<close> on the operands the source compares with it: reconciliation keys, which
  are a string, \<open>null\<close> or \<open>undefined\<close>. \<open>null\<close> and \<open>undefined\<close> are loosely equal
  to each other and to nothing else; two strings are compared as strings.\<close>

definition loose_eq :: "jsval \<Rightarrow> jsval \<Rightarrow> bool" where
  "loose_eq a b =
     (if a = VNull \<or> a = VUndefined then b = VNull \<or> b = VUndefined else a = b)"

text \<open>\<open>String.prototype.startsWith\<close> and \<open>endsWith\<close>.\<close>

definition startsWith :: "string \<Rightarrow> string \<Rightarrow> bool" where
  "startsWith s p = (take (length p) s = p)"

definition endsWith :: "string \<Rightarrow> string \<Rightarrow> bool" where
  "endsWith s p = (length p \<le> length s \<and> drop (length s - length p) s = p)"

text \<open>Reading an array out of range gives \<open>undefined\<close>.\<close>

definition nth_js :: "jsval list \<Rightarrow> nat \<Rightarrow> jsval" where
  "nth_js xs i = (if i < length xs then xs ! i else VUndefined)"

section \<open>Journal opcodes\<close>

datatype VNodeJournalOpCode =
    Insert | Truncate | Remove | Move | TextSet | ElementInsert | Attributes | FragmentInsert

text \<open>A \<open>const enum\<close> numbers its members from 0 in declaration order.\<close>

fun opcode :: "VNodeJournalOpCode \<Rightarrow> jsval" where
  "opcode Insert = VNum 0"
| "opcode Truncate = VNum 1"
| "opcode Remove = VNum 2"
| "opcode Move = VNum 3"
| "opcode TextSet = VNum 4"
| "opcode ElementInsert = VNum 5"
| "opcode Attributes = VNum 6"
| "opcode FragmentInsert = VNum 7"

section \<open>shallowEqual\<close>

datatype error =
    TypeError
  | AssertionFailed
  | NotImplemented
  | Unsupported
  | UnsupportedOpCode

text \<open>
  A property record is the list of its own enumerable fields in insertion order;
  \<open>Object.keys(r).sort()\<close> is the sorted list of the field names and \<open>r[k]\<close> is
  \<open>undefined\<close> for a name that is not a field.
\<close>

definition object_keys :: "attrs \<Rightarrow> string list" where
  "object_keys r = map fst r"

definition get_field :: "attrs \<Rightarrow> string \<Rightarrow> jsval" where
  "get_field r k = (case map_of r k of None \<Rightarrow> VUndefined | Some v \<Rightarrow> v)"

fun shallowEqual_loop :: "attrs \<Rightarrow> attrs \<Rightarrow> string list \<Rightarrow> string list \<Rightarrow> bool" where
  "shallowEqual_loop src dst (srcKey # srcKeys) (dstKey # dstKeys) =
     (if srcKey \<noteq> dstKey \<or> get_field src srcKey \<noteq> get_field dst dstKey then False
      else shallowEqual_loop src dst srcKeys dstKeys)"
| "shallowEqual_loop src dst srcKeys dstKeys = True"

definition shallowEqual :: "attrs \<Rightarrow> attrs \<Rightarrow> bool" where
  "shallowEqual src dst =
     (let srcKeys = object_keys src; dstKeys = object_keys dst in
      if length srcKeys \<noteq> length dstKeys then False
      else shallowEqual_loop src dst (sort srcKeys) (sort dstKeys))"

section \<open>Attribute reconciliation: the merge of setBulkProps\<close>

text \<open>
  \<open>setBulkProps\<close> walks the new attribute list \<open>srcAttrs\<close> and the attribute list
  of the VNode with two indices. Both are flat arrays of alternating keys and values;
  here they are lists of key/value pairs, and an index that ran past the end (the key
  \<open>null\<close>) is the empty list. The closure \<open>record\<close> pushes the \<open>Attributes\<close> opcode
  and the VNode before its first pair.
\<close>

record bulk =
  b_journal :: "jsval list"
  hasDiffs :: bool
  patchEventDispatch :: bool

definition record_kv :: "nat \<Rightarrow> string \<Rightarrow> jsval \<Rightarrow> bulk \<Rightarrow> bulk" where
  "record_kv vnode key val b =
     b\<lparr>b_journal :=
         b_journal b @ (if \<not> hasDiffs b then [opcode Attributes, VNode vnode] else [])
           @ [VStr key, val],
       hasDiffs := True\<rparr>"

fun setBulkProps_loop :: "nat \<Rightarrow> attrs \<Rightarrow> attrs \<Rightarrow> bulk \<Rightarrow> bulk" where
  "setBulkProps_loop vnode [] [] b = b"
| "setBulkProps_loop vnode [] ((dstKey, dstValue) # dst) b =
     setBulkProps_loop vnode [] dst
       (if startsWith dstKey ''on:'' then b\<lparr>patchEventDispatch := True\<rparr>
        else record_kv vnode dstKey VNull b)"
| "setBulkProps_loop vnode ((srcKey, srcValue) # src) [] b =
     setBulkProps_loop vnode src []
       (record_kv vnode srcKey srcValue
          (if startsWith srcKey ''on'' \<and> endsWith srcKey ''$''
           then b\<lparr>patchEventDispatch := True\<rparr> else b))"
| "setBulkProps_loop vnode ((srcKey, srcValue) # src) ((dstKey, dstValue) # dst) b =
     (if srcKey = dstKey then
        setBulkProps_loop vnode src dst
          (if srcValue \<noteq> dstValue then record_kv vnode dstKey srcValue b else b)
      else if srcKey < dstKey then
        setBulkProps_loop vnode src ((dstKey, dstValue) # dst) (record_kv vnode srcKey srcValue b)
      else
        setBulkProps_loop vnode ((srcKey, srcValue) # src) dst (record_kv vnode dstKey VNull b))"

definition bulk0 :: "jsval list \<Rightarrow> bulk" where
  "bulk0 j = \<lparr>b_journal = j, hasDiffs = False, patchEventDispatch = False\<rparr>"


section \<open>The persistent tree\<close>

text \<open>
  The VNode representation and its primitives live in \<open>./vnode\<close> and \<open>./types\<close>, which
  are imported by the source but are not part of it. The store below gives them the
  meaning the specification describes: a node has a discriminant, an ordered list of
  children, and (for element and virtual nodes) an association list of properties sorted
  by key. A VNode reference is an address; references never dangle, so the store is a
  total function and \<open>fresh\<close> is the next address to hand out.
\<close>

datatype vkind = KElement | KText | KVirtual

record vnode =
  kind :: vkind
  elementName :: string
  textValue :: string
  props :: attrs
  children :: "nat list"
  parent :: "nat option"
  qDispatchEvent :: bool

record store =
  node :: "nat \<Rightarrow> vnode"
  fresh :: nat

definition upd_node :: "nat \<Rightarrow> (vnode \<Rightarrow> vnode) \<Rightarrow> store \<Rightarrow> store" where
  "upd_node n f t = t\<lparr>node := (node t)(n := f (node t n))\<rparr>"

text \<open>Modelled from the spec: the reserved property names of \<open>util/markers\<close> (the optional
  reconciliation key, the stored props snapshot and the stored render function).\<close>

definition ELEMENT_KEY :: string where "ELEMENT_KEY = ''q:key''"
definition ELEMENT_PROPS :: string where "ELEMENT_PROPS = ''q:props''"
definition OnRenderProp :: string where "OnRenderProp = ''q:renderFn''"

text \<open>Modelled from the spec: \<open>firstChild\<close>, the first entry of the ordered child list.\<close>

definition vnode_getFirstChild :: "store \<Rightarrow> nat \<Rightarrow> nat option" where
  "vnode_getFirstChild t n = (case children (node t n) of [] \<Rightarrow> None | c # _ \<Rightarrow> Some c)"

text \<open>Modelled from the spec: the children are singly linked through \<open>nextSibling\<close>; the
  nodes after \<open>n\<close> are the entries of its parent's child list that follow it.\<close>

definition following :: "store \<Rightarrow> nat \<Rightarrow> nat list" where
  "following t n =
     (case parent (node t n) of
        None \<Rightarrow> []
      | Some p \<Rightarrow> drop 1 (dropWhile (\<lambda>m. m \<noteq> n) (children (node t p))))"

definition vnode_getNextSibling :: "store \<Rightarrow> nat \<Rightarrow> nat option" where
  "vnode_getNextSibling t n = (case following t n of [] \<Rightarrow> None | m # _ \<Rightarrow> Some m)"

text \<open>Modelled from the spec: \<open>nodeKind\<close>, with the DOM numbering the source compares
  against (\<open>3\<close> is a text node).\<close>

definition vnode_getType :: "store \<Rightarrow> nat \<Rightarrow> nat" where
  "vnode_getType t n = (case kind (node t n) of KElement \<Rightarrow> 1 | KText \<Rightarrow> 3 | KVirtual \<Rightarrow> 11)"

definition vnode_isElementVNode :: "store \<Rightarrow> nat \<Rightarrow> bool" where
  "vnode_isElementVNode t n = (kind (node t n) = KElement)"

definition vnode_isVirtualVNode :: "store \<Rightarrow> nat \<Rightarrow> bool" where
  "vnode_isVirtualVNode t n = (kind (node t n) = KVirtual)"

definition vnode_getElementName :: "store \<Rightarrow> nat \<Rightarrow> string" where
  "vnode_getElementName t n = elementName (node t n)"

definition vnode_getText :: "store \<Rightarrow> nat \<Rightarrow> string" where
  "vnode_getText t n = textValue (node t n)"

text \<open>Modelled from the spec: \<open>getProp(node, key, resolver)\<close> reads the association list and
  gives \<open>null\<close> for an absent key. Stored values are kept resolved, so the resolver is not a
  parameter.\<close>

definition vnode_getProp :: "store \<Rightarrow> nat \<Rightarrow> string \<Rightarrow> jsval" where
  "vnode_getProp t n key = (case map_of (props (node t n)) key of None \<Rightarrow> VNull | Some v \<Rightarrow> v)"

text \<open>Modelled from the spec: \<open>mapArray_set\<close> keeps an association list sorted by key; a
  \<open>null\<close> value removes the key.\<close>

fun upsert :: "string \<Rightarrow> jsval \<Rightarrow> attrs \<Rightarrow> attrs" where
  "upsert k v [] = [(k, v)]"
| "upsert k v ((k', v') # xs) =
     (if k = k' then (k, v) # xs
      else if k < k' then (k, v) # (k', v') # xs
      else (k', v') # upsert k v xs)"

definition mapArray_set :: "attrs \<Rightarrow> string \<Rightarrow> jsval \<Rightarrow> attrs" where
  "mapArray_set xs k v =
     (if v = VNull \<or> v = VUndefined then filter (\<lambda>kv. fst kv \<noteq> k) xs else upsert k v xs)"

text \<open>Modelled from the spec: the mutators \<open>setProp\<close>, \<open>setAttr\<close>, \<open>setText\<close>,
  \<open>insertBefore(parent, node, beforeOrNull)\<close>, \<open>remove(parent, node, cleanupFlag)\<close> and
  \<open>truncate(parent, fromNode)\<close>. The store does not hold the rendered document, so
  \<open>setProp\<close> and \<open>setAttr\<close> have the same effect on it, and so has \<open>remove\<close> with and
  without cleanup.\<close>

definition vnode_setProp :: "store \<Rightarrow> nat \<Rightarrow> string \<Rightarrow> jsval \<Rightarrow> store" where
  "vnode_setProp t n key v = upd_node n (\<lambda>x. x\<lparr>props := mapArray_set (props x) key v\<rparr>) t"

definition vnode_setAttr :: "store \<Rightarrow> nat \<Rightarrow> string \<Rightarrow> jsval \<Rightarrow> store" where
  "vnode_setAttr t n key v = upd_node n (\<lambda>x. x\<lparr>props := mapArray_set (props x) key v\<rparr>) t"

definition vnode_setText :: "store \<Rightarrow> nat \<Rightarrow> string \<Rightarrow> store" where
  "vnode_setText t n s = upd_node n (\<lambda>x. x\<lparr>textValue := s\<rparr>) t"

definition insert_before :: "nat \<Rightarrow> nat option \<Rightarrow> nat list \<Rightarrow> nat list" where
  "insert_before n b cs =
     (case b of
        None \<Rightarrow> cs @ [n]
      | Some m \<Rightarrow> takeWhile (\<lambda>c. c \<noteq> m) cs @ [n] @ dropWhile (\<lambda>c. c \<noteq> m) cs)"

definition vnode_insertBefore :: "store \<Rightarrow> nat \<Rightarrow> nat \<Rightarrow> nat option \<Rightarrow> store" where
  "vnode_insertBefore t p n b =
     upd_node n (\<lambda>x. x\<lparr>parent := Some p\<rparr>)
       (upd_node p (\<lambda>x. x\<lparr>children := insert_before n b (children x)\<rparr>) t)"

definition vnode_remove :: "store \<Rightarrow> nat \<Rightarrow> nat \<Rightarrow> bool \<Rightarrow> store" where
  "vnode_remove t p n cleanup =
     upd_node n (\<lambda>x. x\<lparr>parent := None\<rparr>)
       (upd_node p (\<lambda>x. x\<lparr>children := filter (\<lambda>c. c \<noteq> n) (children x)\<rparr>) t)"

definition vnode_truncate :: "store \<Rightarrow> nat \<Rightarrow> nat \<Rightarrow> store" where
  "vnode_truncate t p n =
     (let gone = dropWhile (\<lambda>c. c \<noteq> n) (children (node t p)) in
      upd_node p (\<lambda>x. x\<lparr>children := takeWhile (\<lambda>c. c \<noteq> n) (children x)\<rparr>)
        (t\<lparr>node := (\<lambda>m. if m \<in> set gone then (node t m)\<lparr>parent := None\<rparr> else node t m)\<rparr>))"

text \<open>Modelled from the spec: \<open>newElement\<close>, \<open>newText\<close> and \<open>newFragment\<close> create a node that
  is not yet linked into the tree: it has no children and no parent, and the parent's
  child list is untouched.\<close>

definition new_node :: "store \<Rightarrow> vkind \<Rightarrow> string \<Rightarrow> string \<Rightarrow> store \<times> nat" where
  "new_node t k nm tx =
     (t\<lparr>node := (node t)(fresh t :=
           \<lparr>kind = k, elementName = nm, textValue = tx, props = [], children = [],
            parent = None, qDispatchEvent = False\<rparr>),
         fresh := Suc (fresh t)\<rparr>,
      fresh t)"

definition vnode_newElement :: "store \<Rightarrow> nat \<Rightarrow> string \<Rightarrow> store \<times> nat" where
  "vnode_newElement t p tag = new_node t KElement tag []"

definition vnode_newText :: "store \<Rightarrow> nat \<Rightarrow> string \<Rightarrow> store \<times> nat" where
  "vnode_newText t p s = new_node t KText [] s"

definition vnode_newVirtual :: "store \<Rightarrow> nat \<Rightarrow> store \<times> nat" where
  "vnode_newVirtual t p = new_node t KVirtual [] []"

section \<open>Descriptors\<close>

text \<open>
  What a JSX child can be, by the tests of the dispatch loop: a string, a number, an
  array, a signal, a JSX node, some other object (\<open>null\<close> included, whose \<open>typeof\<close> is
  \<open>'object'\<close>), or a value that is none of these. The \<open>type\<close> of a JSX node is a tag
  name, \<open>Fragment\<close>, \<open>Slot\<close>, a component (given by the hash of its render QRL) or
  anything else. \<open>attrs\<close> is \<open>None\<close> while the node still holds the shared
  \<open>EMPTY_ARRAY\<close>.
\<close>

datatype jsx_type = TTag string | TFragment | TSlot | TComponent string | TOther

datatype jsx =
    JString string
  | JNumber int
  | JUndefined
  | JBoolean bool
  | JFunction
  | JNull
  | JObject
  | JSignal
  | JArray "jsx list"
  | JSXNode (jsx_ty: jsx_type) (jsx_props: attrs) (jsx_key: jsval) (jsx_attrs: "attrs option")
      (jsx_children: jsx)

definition nth_jsx :: "jsx list \<Rightarrow> nat \<Rightarrow> jsx" where
  "nth_jsx xs i = (if i < length xs then xs ! i else JUndefined)"

text \<open>\<open>String(n)\<close> for an integer.\<close>

fun digits :: "nat \<Rightarrow> string" where
  "digits n = (if n < 10 then [''0123456789'' ! n] else digits (n div 10) @ [''0123456789'' ! (n mod 10)])"

declare digits.simps [simp del]

definition String_of :: "int \<Rightarrow> string" where
  "String_of i = (if i < 0 then CHR ''-'' # digits (nat (- i)) else digits (nat i))"


section \<open>The diff engine: traversal state\<close>

text \<open>
  The variables that the closures of \<open>vnode_diff\<close> share, together with the store and
  the journal of the container. The source keeps its stack as a flat array of the saved
  variables followed by the flag \<open>descendVNode\<close>; a frame holds one such group, and
  \<open>f_vnode\<close> is \<open>None\<close> exactly when the flag is \<open>false\<close> (the VNode variables
  were not pushed). The top of the stack is the head of the list. \<open>jsxChildren\<close> is the
  empty list where the source holds \<open>null\<close>; it is then read at no index.
\<close>

record frame =
  f_jsxChildren :: "jsx list"
  f_jsxIdx :: nat
  f_jsxCount :: nat
  f_jsxValue :: jsx
  f_vnode :: "(nat \<times> nat option \<times> nat option \<times> jsval list option \<times> int) option"

record dstate =
  vtree :: store
  journal :: "jsval list"
  stack :: "frame list"
  asyncQueue :: "(jsx \<times> nat) list"
  vParent :: nat
  vCurrent :: "nat option"
  vNewNode :: "nat option"
  vSiblings :: "jsval list option"
  vSiblingsIdx :: int
  jsxChildren :: "jsx list"
  jsxValue :: jsx
  jsxIdx :: nat
  jsxCount :: nat

definition node_or_null :: "nat option \<Rightarrow> jsval" where
  "node_or_null x = (case x of None \<Rightarrow> VNull | Some n \<Rightarrow> VNode n)"

definition as_vnode :: "jsval \<Rightarrow> nat option" where
  "as_vnode v = (case v of VNode n \<Rightarrow> Some n | _ \<Rightarrow> None)"

definition stackPush :: "jsx \<Rightarrow> bool \<Rightarrow> dstate \<Rightarrow> dstate" where
  "stackPush chs descendVNode s =
     (let f = \<lparr>f_jsxChildren = jsxChildren s, f_jsxIdx = jsxIdx s, f_jsxCount = jsxCount s,
               f_jsxValue = jsxValue s,
               f_vnode = (if descendVNode
                          then Some (vParent s, vCurrent s, vNewNode s, vSiblings s, vSiblingsIdx s)
                          else None)\<rparr>;
          s1 = s\<lparr>stack := f # stack s\<rparr>
      in case chs of
           JArray xs \<Rightarrow>
             s1\<lparr>jsxIdx := 0, jsxCount := length xs, jsxChildren := xs,
                jsxValue := (if 0 < length xs then nth_jsx xs 0 else JNull)\<rparr>
         | JUndefined \<Rightarrow> s1\<lparr>jsxIdx := 0, jsxValue := JNull, jsxChildren := [], jsxCount := 0\<rparr>
         | _ \<Rightarrow> s1\<lparr>jsxIdx := 0, jsxValue := chs, jsxChildren := [], jsxCount := 1\<rparr>)"

definition descend :: "jsx \<Rightarrow> bool \<Rightarrow> dstate \<Rightarrow> error + dstate" where
  "descend chs descendVNode s =
     (let s1 = stackPush chs descendVNode s in
      if descendVNode then
        (case (case vNewNode s1 of Some n \<Rightarrow> Some n | None \<Rightarrow> vCurrent s1) of
           None \<Rightarrow> Inl AssertionFailed
         | Some p \<Rightarrow>
             Inr (s1\<lparr>vSiblings := None, vSiblingsIdx := - 1, vParent := p,
                     vCurrent := vnode_getFirstChild (vtree s1) p, vNewNode := None\<rparr>))
      else Inr s1)"

text \<open>The second half of \<open>advance\<close>: moving the cursor.\<close>

definition advance_cursor :: "dstate \<Rightarrow> dstate" where
  "advance_cursor s =
     (case vNewNode s of
        Some n \<Rightarrow> s\<lparr>vNewNode := None\<rparr>
      | None \<Rightarrow>
          (case vSiblings s of
             Some sibs \<Rightarrow>
               (let i = vSiblingsIdx s + 2 in
                s\<lparr>vSiblingsIdx := i,
                  vCurrent := (if i < int (length sibs) then as_vnode (nth_js sibs (nat (i + 1)))
                               else None)\<rparr>)
           | None \<Rightarrow>
               s\<lparr>vCurrent := (case vCurrent s of
                                None \<Rightarrow> None
                              | Some c \<Rightarrow> vnode_getNextSibling (vtree s) c)\<rparr>))"

text \<open>What \<open>ascend\<close> pops: the VNode variables if the flag is \<open>true\<close>, then the JSX
  variables.\<close>

definition restore :: "frame \<Rightarrow> dstate \<Rightarrow> dstate" where
  "restore f s =
     (let s1 = (case f_vnode f of
                  None \<Rightarrow> s
                | Some (p, c, n, sibs, i) \<Rightarrow>
                    s\<lparr>vSiblingsIdx := i, vSiblings := sibs, vNewNode := n, vCurrent := c,
                      vParent := p\<rparr>)
      in s1\<lparr>jsxValue := f_jsxValue f, jsxCount := f_jsxCount f, jsxIdx := f_jsxIdx f,
            jsxChildren := f_jsxChildren f\<rparr>)"

lemma stack_restore [simp]: "stack (restore f s) = stack s"
  by (simp add: restore_def split: option.splits prod.splits)

definition top_is_false :: "frame list \<Rightarrow> bool" where
  "top_is_false st = (case st of [] \<Rightarrow> False | f # _ \<Rightarrow> f_vnode f = None)"

text \<open>
  \<open>advance\<close> and \<open>ascend\<close> call each other. On an empty stack every \<open>pop\<close> of
  \<open>ascend\<close> gives \<open>undefined\<close> and no comparison of \<open>advance\<close> holds; the loop of
  \<open>diff\<close> always has its own frame at the bottom when it calls \<open>ascend\<close>.
\<close>

function advance :: "dstate \<Rightarrow> dstate" and ascend :: "dstate \<Rightarrow> dstate" where
  "advance s =
     (let s1 = s\<lparr>jsxIdx := Suc (jsxIdx s)\<rparr> in
      if jsxIdx s1 < jsxCount s1 then
        advance_cursor (s1\<lparr>jsxValue := nth_jsx (jsxChildren s1) (jsxIdx s1)\<rparr>)
      else if top_is_false (stack s1) then ascend s1
      else advance_cursor s1)"
| "ascend s =
     (case stack s of
        [] \<Rightarrow> advance_cursor (s\<lparr>jsxValue := JUndefined, jsxCount := 0, jsxIdx := 0,
                                 jsxChildren := []\<rparr>)
      | f # fs \<Rightarrow> advance (restore f (s\<lparr>stack := fs\<rparr>)))"
  by pat_completeness auto

termination
  by (relation "measure (\<lambda>x. case x of Inl s \<Rightarrow> 2 * length (stack s) + 1
                                     | Inr s \<Rightarrow> 2 * length (stack s))")
     auto

declare advance.simps [simp del] ascend.simps [simp del]

definition getInsertBefore :: "dstate \<Rightarrow> jsval" where
  "getInsertBefore s =
     (case vNewNode s of
        Some n \<Rightarrow> node_or_null (vCurrent s)
      | None \<Rightarrow>
          (case vSiblings s of
             Some sibs \<Rightarrow>
               (let nextIdx = vSiblingsIdx s + 3 in
                if nextIdx < int (length sibs) then nth_js sibs (nat nextIdx) else VNull)
           | None \<Rightarrow>
               (case vCurrent s of
                  None \<Rightarrow> VNull
                | Some c \<Rightarrow> node_or_null (vnode_getNextSibling (vtree s) c))))"

section \<open>The diff engine: expectations\<close>

definition expectNoMore :: "dstate \<Rightarrow> error + dstate" where
  "expectNoMore s =
     (if vCurrent s = Some (vParent s) then Inl AssertionFailed
      else Inr (case vCurrent s of
                  None \<Rightarrow> s
                | Some c \<Rightarrow>
                    s\<lparr>journal := journal s @ [opcode Truncate, VNode (vParent s), VNode c]\<rparr>))"

text \<open>The loop of \<open>expectNoMoreTextNodes\<close> follows \<open>vnode_getNextSibling\<close> from the
  cursor: it walks the cursor and the nodes after it. It gives the entries to push and the
  cursor it stops at.\<close>

fun text_run :: "store \<Rightarrow> nat \<Rightarrow> nat list \<Rightarrow> jsval list \<times> nat option" where
  "text_run t p [] = ([], None)"
| "text_run t p (c # cs) =
     (if vnode_getType t c = 3 then
        (let (j, r) = text_run t p cs in ([opcode Remove, VNode p, VNode c] @ j, r))
      else ([], Some c))"

definition expectNoMoreTextNodes :: "dstate \<Rightarrow> dstate" where
  "expectNoMoreTextNodes s =
     (case vCurrent s of
        None \<Rightarrow> s
      | Some c \<Rightarrow>
          (let (j, r) = text_run (vtree s) (vParent s) (c # following (vtree s) c)
           in s\<lparr>journal := journal s @ j, vCurrent := r\<rparr>))"

text \<open>The first loop of \<open>retrieveChildWithKey\<close> materializes the siblings from the cursor
  on, leaving out the first one whose key matches.\<close>

fun materialize ::
  "store \<Rightarrow> jsval \<Rightarrow> nat list \<Rightarrow> nat option \<times> jsval list \<Rightarrow> nat option \<times> jsval list" where
  "materialize t key [] acc = acc"
| "materialize t key (vNode # rest) (vNodeWithKey, sibs) =
     (let vKey = vnode_getProp t vNode ELEMENT_KEY in
      if vNodeWithKey = None \<and> loose_eq vKey key
      then materialize t key rest (Some vNode, sibs)
      else materialize t key rest (vNodeWithKey, sibs @ [vKey, VNode vNode]))"

text \<open>The second loop searches the materialized siblings from \<open>vSiblingsIdx\<close> in steps
  of two; it gives the index of the key found.\<close>

function search_key :: "jsval \<Rightarrow> jsval list \<Rightarrow> nat \<Rightarrow> nat option" where
  "search_key key sibs idx =
     (if idx < length sibs then
        (if loose_eq (nth_js sibs idx) key then Some idx else search_key key sibs (idx + 2))
      else None)"
  by pat_completeness auto

termination
  by (relation "measure (\<lambda>(key, sibs, idx). length sibs - idx)") auto

declare search_key.simps [simp del]

definition retrieveChildWithKey :: "jsval \<Rightarrow> dstate \<Rightarrow> error + (nat option \<times> dstate)" where
  "retrieveChildWithKey key s =
     (if vSiblingsIdx s = - 1 then
        (let chain = (case vCurrent s of None \<Rightarrow> [] | Some c \<Rightarrow> c # following (vtree s) c);
             (vNodeWithKey, sibs) = materialize (vtree s) key chain (None, [])
         in Inr (vNodeWithKey, s\<lparr>vSiblings := Some sibs, vSiblingsIdx := 0\<rparr>))
      else
        (case vSiblings s of
           None \<Rightarrow> Inl TypeError
         | Some sibs \<Rightarrow>
             (case search_key key sibs (nat (vSiblingsIdx s)) of
                None \<Rightarrow> Inr (None, s)
              | Some idx \<Rightarrow>
                  Inr (as_vnode (nth_js sibs (idx + 1)),
                       s\<lparr>vSiblings := Some (take idx sibs @ drop (idx + 2) sibs)\<rparr>))))"

text \<open>\<open>setBulkProps\<close>: the merge against the properties of the VNode, then the dispatch
  adapter, which is installed on the node once.\<close>

definition setBulkProps :: "nat \<Rightarrow> attrs \<Rightarrow> dstate \<Rightarrow> dstate" where
  "setBulkProps vnode srcAttrs s =
     (let b = setBulkProps_loop vnode srcAttrs (props (node (vtree s) vnode)) (bulk0 (journal s))
      in s\<lparr>journal := b_journal b,
           vtree := (if patchEventDispatch b
                     then upd_node vnode (\<lambda>x. x\<lparr>qDispatchEvent := True\<rparr>) (vtree s)
                     else vtree s)\<rparr>)"

text \<open>The attribute list of a JSX element: the cached one, or the one built from the props
  and the key with \<open>mapArray_set\<close>.\<close>

definition element_attrs :: "attrs \<Rightarrow> jsval \<Rightarrow> attrs option \<Rightarrow> attrs" where
  "element_attrs prps key cached =
     (case cached of
        Some a \<Rightarrow> a
      | None \<Rightarrow>
          (let a = fold (\<lambda>kv acc. mapArray_set acc (fst kv) (snd kv)) prps [] in
           if key \<noteq> VNull then
             (if prps = [] then [(ELEMENT_KEY, key)] else mapArray_set a ELEMENT_KEY key)
           else a))"

definition insertNewElement :: "string \<Rightarrow> dstate \<Rightarrow> dstate" where
  "insertNewElement tag s =
     (let (t', n) = vnode_newElement (vtree s) (vParent s) tag in
      s\<lparr>vtree := t', vNewNode := Some n,
        journal := journal s @ [opcode Insert, VNode (vParent s), VNode n, node_or_null (vCurrent s)]\<rparr>)"

text \<open>The first half of \<open>expectElement\<close>: the node for the element is the cursor when tag
  and key match, else a sibling found by key and moved, else a new element.\<close>

definition expectElement_node :: "jsval \<Rightarrow> string \<Rightarrow> dstate \<Rightarrow> error + dstate" where
  "expectElement_node key tag s =
     (let isSameTagName =
            (case vCurrent s of
               None \<Rightarrow> False
             | Some c \<Rightarrow> vnode_isElementVNode (vtree s) c \<and> tag = vnode_getElementName (vtree s) c);
          jsxKey = (if isSameTagName then key else VUndefined);
          matched =
            (case vCurrent s of
               None \<Rightarrow> False
             | Some c \<Rightarrow> isSameTagName \<and> loose_eq key (vnode_getProp (vtree s) c ELEMENT_KEY))
      in if matched then Inr s
         else if jsxKey \<noteq> VNull then
           (case retrieveChildWithKey jsxKey s of
              Inl e \<Rightarrow> Inl e
            | Inr (found, s1) \<Rightarrow>
                (case found of
                   None \<Rightarrow> Inr (insertNewElement tag (s1\<lparr>vNewNode := None\<rparr>))
                 | Some n \<Rightarrow>
                     Inr (s1\<lparr>vNewNode := Some n,
                            journal := journal s1 @
                              [opcode Move, VNode (vParent s1), VNode n,
                               node_or_null (vCurrent s1)]\<rparr>)))
         else Inr (insertNewElement tag s))"

text \<open>The second half reconciles the attributes of that node.\<close>

definition expectElement :: "attrs \<Rightarrow> jsval \<Rightarrow> attrs option \<Rightarrow> string \<Rightarrow> dstate \<Rightarrow> error + dstate" where
  "expectElement prps key cached tag s =
     (case expectElement_node key tag s of
        Inl e \<Rightarrow> Inl e
      | Inr s2 \<Rightarrow>
          (case (case vNewNode s2 of Some n \<Rightarrow> Some n | None \<Rightarrow> vCurrent s2) of
             None \<Rightarrow> Inl TypeError
           | Some vnode \<Rightarrow> Inr (setBulkProps vnode (element_attrs prps key cached) s2)))"

definition expectVirtual :: "dstate \<Rightarrow> dstate" where
  "expectVirtual s =
     (if (case vCurrent s of None \<Rightarrow> False | Some c \<Rightarrow> vnode_isVirtualVNode (vtree s) c) then s
      else
        (let (t', n) = vnode_newVirtual (vtree s) (vParent s);
             s1 = s\<lparr>vtree := t', vNewNode := Some n\<rparr>;
             before = (case vCurrent s1 of None \<Rightarrow> VNull | Some c \<Rightarrow> getInsertBefore s1)
         in s1\<lparr>journal := journal s1 @ [opcode Insert, VNode (vParent s1), VNode n, before]\<rparr>))"

definition expectSlot :: "dstate \<Rightarrow> error + dstate" where
  "expectSlot s = Inl NotImplemented"

text \<open>\<open>vNodeQrl?.$hash$\<close>, and the own fields that \<open>Object.keys\<close> and the indexing of
  \<open>shallowEqual\<close> see in the stored props: \<open>Object.keys\<close> throws on \<open>null\<close> and
  \<open>undefined\<close>.\<close>

definition qrl_hash :: "jsval \<Rightarrow> jsval" where
  "qrl_hash v = (case v of VQrl h \<Rightarrow> VStr h | _ \<Rightarrow> VUndefined)"

definition own_fields :: "jsval \<Rightarrow> error + attrs" where
  "own_fields v =
     (case v of VObj i fs \<Rightarrow> Inr fs | VNull \<Rightarrow> Inl TypeError | VUndefined \<Rightarrow> Inl TypeError
      | _ \<Rightarrow> Inr [])"

text \<open>\<open>executeComponent2\<close> is the component expansion of the host environment; it is a
  parameter, from the render QRL, the host and the props to the descriptor it produces (a
  promise stands for the descriptor it resolves to).\<close>

type_synonym executor = "string \<Rightarrow> nat \<Rightarrow> attrs \<Rightarrow> jsx"

definition expectComponent :: "executor \<Rightarrow> string \<Rightarrow> attrs \<Rightarrow> dstate \<Rightarrow> error + dstate" where
  "expectComponent executeComponent2 componentQRL jsxPros s =
     (case (case vCurrent s of Some c \<Rightarrow> Some c | None \<Rightarrow> vNewNode s) of
        None \<Rightarrow> Inl TypeError
      | Some host \<Rightarrow>
          (let vNodeQrl = vnode_getProp (vtree s) host OnRenderProp;
               changed = (VStr componentQRL \<noteq> qrl_hash vNodeQrl);
               t1 = (if changed then vnode_setProp (vtree s) host OnRenderProp (VQrl componentQRL)
                     else vtree s);
               vNodeProps = vnode_getProp t1 host ELEMENT_PROPS
           in case (if changed then Inr True
                    else (case own_fields vNodeProps of
                            Inl e \<Rightarrow> Inl e
                          | Inr fs \<Rightarrow> Inr (\<not> shallowEqual jsxPros fs))) of
                Inl e \<Rightarrow> Inl e
              | Inr shouldRender \<Rightarrow>
                  Inr (if shouldRender
                       then s\<lparr>vtree := t1,
                              asyncQueue := asyncQueue s @
                                [(executeComponent2 componentQRL host jsxPros, host)]\<rparr>
                       else s\<lparr>vtree := t1\<rparr>)))"

definition expectText :: "string \<Rightarrow> dstate \<Rightarrow> dstate" where
  "expectText txt s =
     (case (case vCurrent s of
              None \<Rightarrow> None
            | Some c \<Rightarrow> if vnode_getType (vtree s) c = 3 then Some c else None) of
        Some c \<Rightarrow>
          (if txt \<noteq> vnode_getText (vtree s) c
           then s\<lparr>journal := journal s @ [opcode TextSet, VNode c, VStr txt]\<rparr>
           else s)
      | None \<Rightarrow>
          (let (t', n) = vnode_newText (vtree s) (vParent s) txt in
           s\<lparr>vtree := t',
             journal := journal s @
               [opcode Insert, VNode (vParent s), VNode n, node_or_null (vCurrent s)]\<rparr>))"

section \<open>The diff engine: the dispatch loop\<close>

text \<open>One turn of the inner loop of \<open>diff\<close>: the assertion, the dispatch on
  \<open>jsxValue\<close>, and \<open>advance\<close> where the branch does not \<open>continue\<close>.\<close>

definition dispatch :: "executor \<Rightarrow> dstate \<Rightarrow> error + dstate" where
  "dispatch ex s =
     (if vCurrent s = Some (vParent s) then Inl AssertionFailed
      else case jsxValue s of
          JString txt \<Rightarrow> Inr (advance (expectText txt s))
        | JNumber i \<Rightarrow> Inr (advance (expectText (String_of i) s))
        | JArray xs \<Rightarrow> descend (JArray xs) False s
        | JSignal \<Rightarrow> Inl NotImplemented
        | JSXNode ty prps key cached chs \<Rightarrow>
            (case ty of
               TTag tag \<Rightarrow>
                 (case expectElement prps key cached tag (expectNoMoreTextNodes s) of
                    Inl e \<Rightarrow> Inl e
                  | Inr s1 \<Rightarrow> descend chs True s1)
             | TFragment \<Rightarrow> descend chs True (expectVirtual (expectNoMoreTextNodes s))
             | TSlot \<Rightarrow> expectSlot s
             | TComponent componentQRL \<Rightarrow>
                 (case expectComponent ex componentQRL prps
                         (expectVirtual (expectNoMoreTextNodes s)) of
                    Inl e \<Rightarrow> Inl e
                  | Inr s1 \<Rightarrow> Inr (advance s1))
             | TOther \<Rightarrow> Inl Unsupported)
        | JNull \<Rightarrow> Inl Unsupported
        | JObject \<Rightarrow> Inl Unsupported
        | _ \<Rightarrow> Inr (advance (expectText [] s)))"


subsection \<open>Termination of the loop\<close>

text \<open>
  The loop of \<open>diff\<close> ends on every state: each turn uses up the weight of a
  descriptor or pops a frame. The measure counts the descriptors still to visit in the
  current child list and in the saved ones, and one for every frame.
\<close>

fun jsx_weight :: "jsx \<Rightarrow> nat" where
  "jsx_weight (JArray xs) = 2 + sum_list (map jsx_weight xs)"
| "jsx_weight (JSXNode ty p k a c) = 2 + jsx_weight c"
| "jsx_weight j = 1"

definition rest_weight :: "jsx list \<Rightarrow> nat \<Rightarrow> nat \<Rightarrow> nat" where
  "rest_weight xs idx cnt = sum_list (map (\<lambda>i. jsx_weight (nth_jsx xs i)) [Suc idx..<cnt])"

definition cur_weight :: "dstate \<Rightarrow> nat" where
  "cur_weight s = (if jsxIdx s < jsxCount s then jsx_weight (jsxValue s) else 0)
                   + rest_weight (jsxChildren s) (jsxIdx s) (jsxCount s)"

definition frame_weight :: "frame \<Rightarrow> nat" where
  "frame_weight f = 1 + rest_weight (f_jsxChildren f) (f_jsxIdx f) (f_jsxCount f)"

definition stack_weight :: "frame list \<Rightarrow> nat" where
  "stack_weight fs = sum_list (map frame_weight fs)"

definition diff_measure :: "dstate \<Rightarrow> nat" where
  "diff_measure s = cur_weight s + stack_weight (stack s)"

definition same_jsx :: "dstate \<Rightarrow> dstate \<Rightarrow> bool" where
  "same_jsx s s' = (stack s' = stack s \<and> jsxChildren s' = jsxChildren s \<and> jsxIdx s' = jsxIdx s
      \<and> jsxCount s' = jsxCount s \<and> jsxValue s' = jsxValue s)"

lemma same_jsx_measure: "same_jsx s s' \<Longrightarrow> diff_measure s' = diff_measure s"
  by (simp add: same_jsx_def diff_measure_def cur_weight_def)

lemma same_jsx_refl [simp]: "same_jsx s s" by (simp add: same_jsx_def)
lemma same_jsx_trans: "same_jsx s s' \<Longrightarrow> same_jsx s' s'' \<Longrightarrow> same_jsx s s''" by (simp add: same_jsx_def)

lemma jsx_weight_pos: "0 < jsx_weight j" by (cases j) auto

lemma same_advance_cursor: "same_jsx s (advance_cursor s)"
  by (simp add: same_jsx_def advance_cursor_def Let_def split: option.splits)

lemma same_expectText: "same_jsx s (expectText txt s)"
  by (simp add: same_jsx_def expectText_def Let_def split: option.splits prod.splits)

lemma same_expectNoMoreTextNodes: "same_jsx s (expectNoMoreTextNodes s)"
  by (simp add: same_jsx_def expectNoMoreTextNodes_def Let_def split: option.splits prod.splits)

lemma same_expectVirtual: "same_jsx s (expectVirtual s)"
  by (simp add: same_jsx_def expectVirtual_def Let_def split: option.splits prod.splits)

lemma same_setBulkProps: "same_jsx s (setBulkProps v a s)"
  by (simp add: same_jsx_def setBulkProps_def Let_def)

lemma same_insertNewElement: "same_jsx s (insertNewElement tag s)"
  by (simp add: same_jsx_def insertNewElement_def Let_def split: prod.splits)

lemma same_retrieveChildWithKey: "retrieveChildWithKey k s = Inr (r, s') \<Longrightarrow> same_jsx s s'"
  by (auto simp add: same_jsx_def retrieveChildWithKey_def Let_def split: option.splits prod.splits if_splits)

lemma same_expectElement_node: "expectElement_node k tag s = Inr s' \<Longrightarrow> same_jsx s s'"
  unfolding expectElement_node_def Let_def
  by (auto split: option.splits prod.splits if_splits sum.splits
      dest!: same_retrieveChildWithKey
      simp: same_jsx_def same_insertNewElement[unfolded same_jsx_def])

lemma same_expectElement: "expectElement p k c tag s = Inr s' \<Longrightarrow> same_jsx s s'"
  unfolding expectElement_def
  by (auto split: option.splits sum.splits dest!: same_expectElement_node
      simp: same_jsx_def same_setBulkProps[unfolded same_jsx_def])

lemma same_expectComponent: "expectComponent ex q p s = Inr s' \<Longrightarrow> same_jsx s s'"
  by (auto simp add: same_jsx_def expectComponent_def Let_def split: option.splits prod.splits if_splits sum.splits)

lemma same_expectNoMore: "expectNoMore s = Inr s' \<Longrightarrow> same_jsx s s'"
  by (auto simp add: same_jsx_def expectNoMore_def Let_def split: option.splits prod.splits if_splits sum.splits)

lemma stack_weight_Cons [simp]: "stack_weight (f # fs) = frame_weight f + stack_weight fs"
  by (simp add: stack_weight_def)

lemma stack_weight_Nil [simp]: "stack_weight [] = 0"
  by (simp add: stack_weight_def)

lemma rest_weight_step:
  "Suc idx < cnt \<Longrightarrow> rest_weight xs idx cnt = jsx_weight (nth_jsx xs (Suc idx)) + rest_weight xs (Suc idx) cnt"
  by (simp add: rest_weight_def upt_conv_Cons)

lemma rest_weight_done: "\<not> Suc idx < cnt \<Longrightarrow> rest_weight xs idx cnt = 0"
  by (simp add: rest_weight_def)

lemma measure_advance_cursor: "diff_measure (advance_cursor s) = diff_measure s"
  by (rule same_jsx_measure [OF same_advance_cursor])

lemma advance_ascend_measure:
  "diff_measure (advance s) \<le> rest_weight (jsxChildren s) (jsxIdx s) (jsxCount s) + stack_weight (stack s)"
  "stack s \<noteq> [] \<Longrightarrow> diff_measure (ascend s) < stack_weight (stack s)"
proof (induction s and s rule: advance_ascend.induct)
  case (1 s)
  let ?s1 = "s\<lparr>jsxIdx := Suc (jsxIdx s)\<rparr>"
  show ?case
  proof (cases "Suc (jsxIdx s) < jsxCount s")
    case True
    then have "diff_measure (advance s) =
        diff_measure (s\<lparr>jsxIdx := Suc (jsxIdx s), jsxValue := nth_jsx (jsxChildren s) (Suc (jsxIdx s))\<rparr>)"
      by (simp add: advance.simps [of s] measure_advance_cursor)
    then show ?thesis using True
      by (simp add: diff_measure_def cur_weight_def rest_weight_step)
  next
    case False
    show ?thesis
    proof (cases "top_is_false (stack s)")
      case True
      then have ne: "stack ?s1 \<noteq> []" by (auto simp: top_is_false_def split: list.splits)
      have "diff_measure (ascend ?s1) < stack_weight (stack ?s1)"
        using "1.IH" False True ne by simp
      then show ?thesis using False True by (simp add: advance.simps [of s])
    next
      case nt: False
      then have "diff_measure (advance s) = diff_measure (s\<lparr>jsxIdx := Suc (jsxIdx s)\<rparr>)"
        using False by (simp add: advance.simps [of s] measure_advance_cursor)
      then show ?thesis using False
        by (simp add: diff_measure_def cur_weight_def rest_weight_done)
    qed
  qed
next
  case (2 s)
  then obtain f fs where st: "stack s = f # fs" by (cases "stack s") auto
  have "diff_measure (advance (restore f (s\<lparr>stack := fs\<rparr>)))
      \<le> rest_weight (jsxChildren (restore f (s\<lparr>stack := fs\<rparr>))) (jsxIdx (restore f (s\<lparr>stack := fs\<rparr>)))
          (jsxCount (restore f (s\<lparr>stack := fs\<rparr>))) + stack_weight (stack (restore f (s\<lparr>stack := fs\<rparr>)))"
    using "2.IH" st by simp
  moreover have "jsxChildren (restore f (s\<lparr>stack := fs\<rparr>)) = f_jsxChildren f"
    "jsxIdx (restore f (s\<lparr>stack := fs\<rparr>)) = f_jsxIdx f"
    "jsxCount (restore f (s\<lparr>stack := fs\<rparr>)) = f_jsxCount f"
    by (simp_all add: restore_def Let_def split: option.splits prod.splits)
  ultimately show ?case using st
    by (simp add: ascend.simps [of s] frame_weight_def)
qed

lemma stack_ascend_Nil: "stack s = [] \<Longrightarrow> stack (ascend s) = []"
  using same_advance_cursor [of "s\<lparr>jsxValue := JUndefined, jsxCount := 0, jsxIdx := 0, jsxChildren := []\<rparr>"]
  by (simp add: ascend.simps [of s] same_jsx_def)

lemma sum_nth_jsx: "(\<Sum>i\<leftarrow>[0..<length xs]. jsx_weight (nth_jsx xs i)) = sum_list (map jsx_weight xs)"
proof -
  have "map (\<lambda>i. jsx_weight (nth_jsx xs i)) [0..<length xs] = map jsx_weight xs"
    by (rule nth_equalityI) (simp_all add: nth_jsx_def)
  then show ?thesis by simp
qed

lemma cur_weight_array:
  assumes "jsxIdx s = 0" "jsxCount s = length xs" "jsxChildren s = xs"
    "jsxValue s = (if 0 < length xs then nth_jsx xs 0 else JNull)"
  shows "cur_weight s = sum_list (map jsx_weight xs)"
proof (cases xs)
  case Nil
  then show ?thesis using assms by (simp add: cur_weight_def rest_weight_def)
next
  case (Cons a as)
  then have "0 < length xs" by simp
  then have "[0..<length xs] = 0 # [Suc 0..<length xs]" by (rule upt_conv_Cons)
  then have "sum_list (map jsx_weight xs) = jsx_weight (nth_jsx xs 0) + rest_weight xs 0 (length xs)"
    using sum_nth_jsx [of xs] by (simp add: rest_weight_def)
  then show ?thesis using Cons assms by (simp add: cur_weight_def)
qed

lemma cur_weight_stackPush_array:
  "cur_weight (stackPush (JArray xs) flag s) = sum_list (map jsx_weight xs)"
  by (rule cur_weight_array) (simp_all add: stackPush_def Let_def)

lemma cur_weight_stackPush: "cur_weight (stackPush chs flag s) \<le> jsx_weight chs"
proof (cases chs)
  case (JArray xs)
  then show ?thesis by (simp add: cur_weight_stackPush_array)
qed (simp_all add: stackPush_def Let_def cur_weight_def rest_weight_def)

lemma stack_stackPush:
  "stack_weight (stack (stackPush chs flag s)) = 1 + rest_weight (jsxChildren s) (jsxIdx s) (jsxCount s) + stack_weight (stack s)"
  by (cases chs) (simp_all add: stackPush_def Let_def frame_weight_def)

lemma measure_descend:
  "descend chs flag s = Inr s' \<Longrightarrow> diff_measure s' \<le> jsx_weight chs + 1 + rest_weight (jsxChildren s) (jsxIdx s) (jsxCount s) + stack_weight (stack s)"
  using cur_weight_stackPush [of chs flag s] stack_stackPush [of chs flag s]
  by (auto simp: descend_def Let_def diff_measure_def cur_weight_def split: if_splits option.splits)

lemma measure_descend_array:
  "descend (JArray xs) False s = Inr s' \<Longrightarrow> diff_measure s' = sum_list (map jsx_weight xs) + 1 + rest_weight (jsxChildren s) (jsxIdx s) (jsxCount s) + stack_weight (stack s)"
  using stack_stackPush [of "JArray xs" False s] cur_weight_stackPush_array [of xs False s]
  by (auto simp: descend_def Let_def diff_measure_def)

lemma measure_advance_after:
  assumes "same_jsx s s1" "jsxIdx s < jsxCount s"
  shows "diff_measure (advance s1) < diff_measure s"
proof -
  have "diff_measure (advance s1) \<le> rest_weight (jsxChildren s) (jsxIdx s) (jsxCount s) + stack_weight (stack s)"
    using advance_ascend_measure(1) [of s1] assms(1) by (simp add: same_jsx_def)
  then show ?thesis
    using assms(2) jsx_weight_pos [of "jsxValue s"] by (simp add: diff_measure_def cur_weight_def)
qed

lemma measure_descend_after:
  assumes "same_jsx s s1" "jsxIdx s < jsxCount s" "jsxValue s = JSXNode ty p k c chs"
    "descend chs flag s1 = Inr s'"
  shows "diff_measure s' < diff_measure s"
  using measure_descend [OF assms(4)] assms(1,2,3)
  by (simp add: same_jsx_def diff_measure_def cur_weight_def)

lemma dispatch_measure:
  assumes "jsxIdx s < jsxCount s" "dispatch ex s = Inr s'"
  shows "diff_measure s' < diff_measure s"
proof (cases "jsxValue s")
  case (JArray xs)
  then have "descend (JArray xs) False s = Inr s'"
    using assms(2) by (simp add: dispatch_def split: if_splits)
  from measure_descend_array [OF this] show ?thesis
    using assms(1) JArray by (simp add: diff_measure_def cur_weight_def)
next
  case (JSXNode ty p k c chs)
  show ?thesis
  proof (cases ty)
    case (TTag tag)
    then obtain s1 where e: "expectElement p k c tag (expectNoMoreTextNodes s) = Inr s1"
      and d: "descend chs True s1 = Inr s'"
      using assms(2) JSXNode by (auto simp: dispatch_def split: if_splits sum.splits)
    have "same_jsx s s1"
      using same_jsx_trans [OF same_expectNoMoreTextNodes same_expectElement [OF e]] .
    then show ?thesis using measure_descend_after assms(1) JSXNode d by blast
  next
    case TFragment
    then have d: "descend chs True (expectVirtual (expectNoMoreTextNodes s)) = Inr s'"
      using assms(2) JSXNode by (auto simp: dispatch_def split: if_splits sum.splits)
    have "same_jsx s (expectVirtual (expectNoMoreTextNodes s))"
      using same_jsx_trans [OF same_expectNoMoreTextNodes same_expectVirtual] .
    then show ?thesis using measure_descend_after assms(1) JSXNode d by blast
  next
    case TSlot
    then show ?thesis using assms(2) JSXNode by (simp add: dispatch_def expectSlot_def split: if_splits)
  next
    case (TComponent q)
    then obtain s1 where e: "expectComponent ex q p (expectVirtual (expectNoMoreTextNodes s)) = Inr s1"
      and d: "s' = advance s1"
      using assms(2) JSXNode by (auto simp: dispatch_def split: if_splits sum.splits)
    have "same_jsx s s1"
      using same_jsx_trans [OF same_jsx_trans [OF same_expectNoMoreTextNodes same_expectVirtual]
          same_expectComponent [OF e]] .
    then show ?thesis using measure_advance_after assms(1) d by blast
  next
    case TOther
    then show ?thesis using assms(2) JSXNode by (simp add: dispatch_def split: if_splits)
  qed
qed (use assms in \<open>auto simp: dispatch_def split: if_splits intro!: measure_advance_after same_expectText\<close>)

lemma ascend_measure_loop:
  assumes "expectNoMore s = Inr s1" "stack (ascend s1) \<noteq> []"
  shows "diff_measure (ascend s1) < diff_measure s"
proof -
  have sj: "same_jsx s s1" using assms(1) by (rule same_expectNoMore)
  have "stack s1 \<noteq> []" using assms(2) stack_ascend_Nil by blast
  then have "diff_measure (ascend s1) < stack_weight (stack s1)"
    by (rule advance_ascend_measure(2))
  then show ?thesis using sj by (simp add: same_jsx_def diff_measure_def)
qed

text \<open>
  The two nested loops of \<open>diff\<close>. The outer loop tests \<open>stack.length\<close> on entry, where
  \<open>stackPush\<close> has just pushed a frame, and after each \<open>ascend\<close>; the inner loop tests only
  \<open>jsxIdx < jsxCount\<close>.
\<close>

function diff_loop :: "executor \<Rightarrow> dstate \<Rightarrow> error + dstate" where
  "diff_loop ex s =
     (if jsxIdx s < jsxCount s then
        (case dispatch ex s of Inl e \<Rightarrow> Inl e | Inr s1 \<Rightarrow> diff_loop ex s1)
      else
        (case expectNoMore s of
           Inl e \<Rightarrow> Inl e
         | Inr s1 \<Rightarrow> (let s2 = ascend s1 in if stack s2 = [] then Inr s2 else diff_loop ex s2)))"
  by pat_completeness auto

termination
  by (relation "measure (\<lambda>(ex, s). diff_measure s)")
     (auto simp: dispatch_measure ascend_measure_loop)

declare diff_loop.simps [simp del]

definition diff :: "executor \<Rightarrow> jsx \<Rightarrow> nat \<Rightarrow> dstate \<Rightarrow> error + dstate" where
  "diff ex jsxNode vStartNode s =
     diff_loop ex
       (stackPush jsxNode True
          (s\<lparr>vParent := vStartNode, vNewNode := None,
             vCurrent := vnode_getFirstChild (vtree s) vStartNode\<rparr>))"

text \<open>
  \<open>drainAsyncQueue\<close> takes a descriptor and its host from the front of the queue and
  diffs them, until the queue is empty. A component that renders itself keeps the queue
  filled for ever, so the loop takes fuel: \<open>None\<close> is the drain that has not ended
  after that many expansions.
\<close>

fun drainAsyncQueue :: "executor \<Rightarrow> nat \<Rightarrow> dstate \<Rightarrow> (error + dstate) option" where
  "drainAsyncQueue ex fuel s =
     (case asyncQueue s of
        [] \<Rightarrow> Some (Inr s)
      | (jsxNode, vHostNode) # q \<Rightarrow>
          (case fuel of
             0 \<Rightarrow> None
           | Suc n \<Rightarrow>
               (case diff ex jsxNode vHostNode (s\<lparr>asyncQueue := q\<rparr>) of
                  Inl e \<Rightarrow> Some (Inl e)
                | Inr s1 \<Rightarrow> drainAsyncQueue ex n s1)))"

declare drainAsyncQueue.simps [simp del]

text \<open>The variables of a fresh call of \<open>vnode_diff\<close> on a store and the journal of the
  container. \<open>vParent\<close> starts as \<open>null\<close> and is set by \<open>diff\<close> before it is read.\<close>

definition init_state :: "store \<Rightarrow> jsval list \<Rightarrow> dstate" where
  "init_state t j =
     \<lparr>vtree = t, journal = j, stack = [], asyncQueue = [], vParent = 0, vCurrent = None,
      vNewNode = None, vSiblings = None, vSiblingsIdx = - 1, jsxChildren = [],
      jsxValue = JNull, jsxIdx = 0, jsxCount = 0\<rparr>"

definition vnode_diff ::
  "executor \<Rightarrow> nat \<Rightarrow> store \<Rightarrow> jsval list \<Rightarrow> jsx \<Rightarrow> nat \<Rightarrow> (error + dstate) option" where
  "vnode_diff ex fuel t j jsxNode vStartNode =
     (case diff ex jsxNode vStartNode (init_state t j) of
        Inl e \<Rightarrow> Some (Inl e)
      | Inr s \<Rightarrow> drainAsyncQueue ex fuel s)"

section \<open>The journal applier\<close>

text \<open>
  The applier reads the journal by index and hands the operands, as they are, to the tree
  primitives. The primitives are parameters here, so that what is proved of the applier
  holds for any tree behind it; \<open>tree_primitives\<close> below are those of the store.
\<close>

record 'w primitives =
  p_setText :: "jsval \<Rightarrow> jsval \<Rightarrow> 'w \<Rightarrow> error + 'w"
  p_insertBefore :: "jsval \<Rightarrow> jsval \<Rightarrow> jsval \<Rightarrow> 'w \<Rightarrow> error + 'w"
  p_truncate :: "jsval \<Rightarrow> jsval \<Rightarrow> 'w \<Rightarrow> error + 'w"
  p_remove :: "jsval \<Rightarrow> jsval \<Rightarrow> bool \<Rightarrow> 'w \<Rightarrow> error + 'w"
  p_setProp :: "jsval \<Rightarrow> string \<Rightarrow> jsval \<Rightarrow> 'w \<Rightarrow> error + 'w"
  p_setAttr :: "jsval \<Rightarrow> string \<Rightarrow> jsval \<Rightarrow> 'w \<Rightarrow> error + 'w"

text \<open>The inner loop of the \<open>Attributes\<close> case: it runs while the entry at \<open>idx\<close> is a
  string, and gives the index it stops at.\<close>

function attributes_loop ::
  "'w primitives \<Rightarrow> jsval list \<Rightarrow> jsval \<Rightarrow> nat \<Rightarrow> 'w \<Rightarrow> error + (nat \<times> 'w)" where
  "attributes_loop P jn vnode idx w =
     (case nth_js jn idx of
        VStr key \<Rightarrow>
          (let val = nth_js jn (idx + 1) in
           case (if startsWith key ''on'' \<and> endsWith key ''$''
                 then p_setProp P vnode key val w
                 else p_setAttr P vnode key val w) of
             Inl e \<Rightarrow> Inl e
           | Inr w' \<Rightarrow> attributes_loop P jn vnode (idx + 2) w')
      | _ \<Rightarrow> Inr (idx, w))"
  by pat_completeness auto

termination
  by (relation "measure (\<lambda>(P, jn, vnode, idx, w). length jn - idx)")
     (auto simp: nth_js_def split: if_splits)

declare attributes_loop.simps [simp del]

lemma attributes_loop_idx: "attributes_loop P jn vnode idx w = Inr (idx', w') \<Longrightarrow> idx \<le> idx'"
proof (induction P jn vnode idx w rule: attributes_loop.induct)
  case (1 P jn vnode idx w)
  show ?case
  proof (cases "nth_js jn idx")
    case (VStr key)
    let ?r = "if startsWith key ''on'' \<and> endsWith key ''$''
              then p_setProp P vnode key (nth_js jn (idx + 1)) w
              else p_setAttr P vnode key (nth_js jn (idx + 1)) w"
    from "1.prems" VStr obtain w1 where
      r': "(if startsWith key ''on'' \<and> endsWith key ''$''
            then p_setProp P vnode key (nth_js jn (Suc idx)) w
            else p_setAttr P vnode key (nth_js jn (Suc idx)) w) = Inr w1"
      and rec: "attributes_loop P jn vnode (Suc (Suc idx)) w1 = Inr (idx', w')"
      by (auto simp add: attributes_loop.simps [of P jn vnode idx w] Let_def split: sum.splits)
    have r: "?r = Inr w1" using r' by (auto split: if_splits)
    have "idx + 2 \<le> idx'"
      using "1.IH" [OF VStr refl r] rec by simp
    then show ?thesis by simp
  qed (use "1.prems" in \<open>simp_all add: attributes_loop.simps [of P jn vnode idx w]\<close>)
qed

function apply_loop :: "'w primitives \<Rightarrow> jsval list \<Rightarrow> nat \<Rightarrow> 'w \<Rightarrow> error + 'w" where
  "apply_loop P jn idx w =
     (if idx < length jn then
        (case nth_js jn idx of
           VNum opCode \<Rightarrow>
             (if VNum opCode = opcode TextSet then
                (case p_setText P (nth_js jn (idx + 1)) (nth_js jn (idx + 2)) w of
                   Inl e \<Rightarrow> Inl e
                 | Inr w' \<Rightarrow> apply_loop P jn (idx + 3) w')
              else if VNum opCode = opcode Insert then
                (case p_insertBefore P (nth_js jn (idx + 1)) (nth_js jn (idx + 2))
                        (nth_js jn (idx + 3)) w of
                   Inl e \<Rightarrow> Inl e
                 | Inr w' \<Rightarrow> apply_loop P jn (idx + 4) w')
              else if VNum opCode = opcode Truncate then
                (case p_truncate P (nth_js jn (idx + 1)) (nth_js jn (idx + 2)) w of
                   Inl e \<Rightarrow> Inl e
                 | Inr w' \<Rightarrow> apply_loop P jn (idx + 3) w')
              else if VNum opCode = opcode Remove then
                (case p_remove P (nth_js jn (idx + 1)) (nth_js jn (idx + 2)) True w of
                   Inl e \<Rightarrow> Inl e
                 | Inr w' \<Rightarrow> apply_loop P jn (idx + 3) w')
              else if VNum opCode = opcode Move then
                (case p_remove P (nth_js jn (idx + 1)) (nth_js jn (idx + 2)) False w of
                   Inl e \<Rightarrow> Inl e
                 | Inr w1 \<Rightarrow>
                     (case p_insertBefore P (nth_js jn (idx + 1)) (nth_js jn (idx + 2))
                             (nth_js jn (idx + 3)) w1 of
                        Inl e \<Rightarrow> Inl e
                      | Inr w' \<Rightarrow> apply_loop P jn (idx + 4) w'))
              else if VNum opCode = opcode Attributes then
                (case attributes_loop P jn (nth_js jn (idx + 1)) (idx + 2) w of
                   Inl e \<Rightarrow> Inl e
                 | Inr (idx', w') \<Rightarrow> apply_loop P jn idx' w')
              else Inl UnsupportedOpCode)
         | _ \<Rightarrow> Inl AssertionFailed)
      else Inr w)"
  by pat_completeness auto

termination
  by (relation "measure (\<lambda>(P, jn, idx, w). length jn - idx)")
     (auto dest!: attributes_loop_idx)

declare apply_loop.simps [simp del]

text \<open>\<open>vnode_applyJournal\<close> gives the outcome and the journal it leaves: \<open>journal.length = 0\<close>
  is its last statement, which an error does not reach.\<close>

definition vnode_applyJournal ::
  "'w primitives \<Rightarrow> jsval list \<Rightarrow> 'w \<Rightarrow> (error + 'w) \<times> jsval list" where
  "vnode_applyJournal P jn w =
     (case apply_loop P jn 0 w of
        Inl e \<Rightarrow> (Inl e, jn)
      | Inr w' \<Rightarrow> (Inr w', []))"

text \<open>The primitives of the store. An operand that is not of the kind the primitive
  dereferences is a \<open>TypeError\<close>.\<close>

definition tree_primitives :: "store primitives" where
  "tree_primitives =
     \<lparr>p_setText = (\<lambda>n v t. case (n, v) of
          (VNode i, VStr x) \<Rightarrow> Inr (vnode_setText t i x) | _ \<Rightarrow> Inl TypeError),
      p_insertBefore = (\<lambda>p n b t. case (p, n, b) of
          (VNode i, VNode k, VNode m) \<Rightarrow> Inr (vnode_insertBefore t i k (Some m))
        | (VNode i, VNode k, VNull) \<Rightarrow> Inr (vnode_insertBefore t i k None)
        | (VNode i, VNode k, VUndefined) \<Rightarrow> Inr (vnode_insertBefore t i k None)
        | _ \<Rightarrow> Inl TypeError),
      p_truncate = (\<lambda>p n t. case (p, n) of
          (VNode i, VNode k) \<Rightarrow> Inr (vnode_truncate t i k) | _ \<Rightarrow> Inl TypeError),
      p_remove = (\<lambda>p n cleanup t. case (p, n) of
          (VNode i, VNode k) \<Rightarrow> Inr (vnode_remove t i k cleanup) | _ \<Rightarrow> Inl TypeError),
      p_setProp = (\<lambda>n key v t. case n of
          VNode i \<Rightarrow> Inr (vnode_setProp t i key v) | _ \<Rightarrow> Inl TypeError),
      p_setAttr = (\<lambda>n key v t. case n of
          VNode i \<Rightarrow> Inr (vnode_setAttr t i key v) | _ \<Rightarrow> Inl TypeError)\<rparr>"


section \<open>Attribute reconciliation\<close>

text \<open>The pairs that the loop records, in the order it records them, and the block they
  make in the journal: the opcode and the VNode once, before the first pair.\<close>

fun recorded :: "attrs \<Rightarrow> attrs \<Rightarrow> attrs" where
  "recorded [] [] = []"
| "recorded [] ((dk, dv) # dst) = (if startsWith dk ''on:'' then [] else [(dk, VNull)]) @ recorded [] dst"
| "recorded ((sk, sv) # src) [] = (sk, sv) # recorded src []"
| "recorded ((sk, sv) # src) ((dk, dv) # dst) =
     (if sk = dk then (if sv \<noteq> dv then [(dk, sv)] else []) @ recorded src dst
      else if sk < dk then (sk, sv) # recorded src ((dk, dv) # dst)
      else (dk, VNull) # recorded ((sk, sv) # src) dst)"

definition attr_block :: "nat \<Rightarrow> bool \<Rightarrow> attrs \<Rightarrow> jsval list" where
  "attr_block vnode h es =
     (if es = [] then []
      else (if h then [] else [opcode Attributes, VNode vnode]) @ concat (map (\<lambda>kv. [VStr (fst kv), snd kv]) es))"

text \<open>
  The merge as the specification words it: over the keys of both lists in key order, a
  key only in the new list is an addition, a key only in the existing list is a removal
  with the value \<open>null\<close>, a key in both is an update when the values differ and nothing
  when they are equal. \<open>merge_entry\<close> is the same with the one exception the loop makes:
  once the new list is exhausted, an existing key that starts with \<open>on:\<close> is not recorded.
\<close>

definition merged_keys :: "attrs \<Rightarrow> attrs \<Rightarrow> string list" where
  "merged_keys src dst = sort (remdups (map fst src @ map fst dst))"

definition claimed_entry :: "attrs \<Rightarrow> attrs \<Rightarrow> string \<Rightarrow> attrs" where
  "claimed_entry src dst k =
     (case (map_of src k, map_of dst k) of
        (Some v, None) \<Rightarrow> [(k, v)]
      | (None, Some w) \<Rightarrow> [(k, VNull)]
      | (Some v, Some w) \<Rightarrow> if v \<noteq> w then [(k, v)] else []
      | (None, None) \<Rightarrow> [])"

definition claimed_entries :: "attrs \<Rightarrow> attrs \<Rightarrow> attrs" where
  "claimed_entries src dst = concat (map (claimed_entry src dst) (merged_keys src dst))"

definition merge_entry :: "attrs \<Rightarrow> attrs \<Rightarrow> string \<Rightarrow> attrs" where
  "merge_entry src dst k =
     (case (map_of src k, map_of dst k) of
        (Some v, None) \<Rightarrow> [(k, v)]
      | (None, Some w) \<Rightarrow>
          if startsWith k ''on:'' \<and> list_all (\<lambda>k'. k' < k) (map fst src) then [] else [(k, VNull)]
      | (Some v, Some w) \<Rightarrow> if v \<noteq> w then [(k, v)] else []
      | (None, None) \<Rightarrow> [])"

definition merge_entries :: "attrs \<Rightarrow> attrs \<Rightarrow> attrs" where
  "merge_entries src dst = concat (map (merge_entry src dst) (merged_keys src dst))"

lemma attr_block_Nil [simp]: "attr_block v h [] = []"
  by (simp add: attr_block_def)

lemma attr_block_Cons:
  "attr_block v h (e # es) =
     (if h then [] else [opcode Attributes, VNode v]) @ [VStr (fst e), snd e] @ attr_block v True es"
  by (simp add: attr_block_def)

lemma loop_journal:
  "b_journal (setBulkProps_loop v src dst b) = b_journal b @ attr_block v (hasDiffs b) (recorded src dst)
   \<and> hasDiffs (setBulkProps_loop v src dst b) = (hasDiffs b \<or> recorded src dst \<noteq> [])"
  by (induction v src dst b rule: setBulkProps_loop.induct)
     (auto simp: record_kv_def attr_block_Cons)

lemma merged_keys_set:
  "merged_keys src dst = sorted_list_of_set (set (map fst src) \<union> set (map fst dst))"
proof -
  have "set (map fst src) \<union> set (map fst dst) = set (map fst src @ map fst dst)" by simp
  then show ?thesis
    by (simp only: merged_keys_def sorted_list_of_set_sort_remdups)
qed

lemma slos_min:
  fixes x :: "'a::linorder"
  assumes "finite A" "\<forall>y\<in>A. x < y"
  shows "sorted_list_of_set (insert x A) = x # sorted_list_of_set A"
proof -
  have "x \<notin> A" using assms(2) by auto
  then have "sorted_list_of_set (insert x A) = insort x (sorted_list_of_set A)"
    using assms(1) by simp
  also have "\<dots> = x # sorted_list_of_set A"
    using assms by (intro insort_is_Cons) (auto simp: less_imp_le)
  finally show ?thesis .
qed

lemma merge_entries_Cons:
  assumes "\<forall>k \<in> set (map fst src') \<union> set (map fst dst'). x < k"
    and "set (map fst src) \<union> set (map fst dst) = insert x (set (map fst src') \<union> set (map fst dst'))"
    and "\<And>k. x < k \<Longrightarrow> merge_entry src dst k = merge_entry src' dst' k"
  shows "merge_entries src dst = merge_entry src dst x @ merge_entries src' dst'"
proof -
  let ?A = "set (map fst src') \<union> set (map fst dst')"
  have "sorted_list_of_set (insert x ?A) = x # sorted_list_of_set ?A"
    using assms(1) by (intro slos_min) auto
  then have A: "sorted_list_of_set (set (map fst src) \<union> set (map fst dst)) = x # sorted_list_of_set ?A"
    by (simp only: assms(2))
  have B: "map (merge_entry src dst) (sorted_list_of_set ?A) = map (merge_entry src' dst') (sorted_list_of_set ?A)"
    using assms(1,3) by (intro map_cong) auto
  show ?thesis
    by (simp only: merge_entries_def merged_keys_set A list.map concat.simps B)
qed

lemma map_of_None_less: "\<forall>k\<in>set (map fst xs). x < k \<Longrightarrow> map_of xs x = None"
  for x :: string
  by (induction xs) auto

lemma recorded_merge_entries:
  "sorted_wrt (<) (map fst src) \<Longrightarrow> sorted_wrt (<) (map fst dst) \<Longrightarrow> recorded src dst = merge_entries src dst"
proof (induction src dst rule: recorded.induct)
  case 1
  show ?case by (simp add: merge_entries_def merged_keys_def)
next
  case (2 dk dv dst)
  have "merge_entries [] ((dk, dv) # dst) = merge_entry [] ((dk, dv) # dst) dk @ merge_entries [] dst"
    using 2(2,3) by (intro merge_entries_Cons) (auto simp: merge_entry_def)
  then show ?case using 2 by (simp add: merge_entry_def)
next
  case (3 sk sv src)
  have "merge_entries ((sk, sv) # src) [] = merge_entry ((sk, sv) # src) [] sk @ merge_entries src []"
    using 3(2,3) by (intro merge_entries_Cons) (auto simp: merge_entry_def)
  then show ?case using 3 by (simp add: merge_entry_def)
next
  case (4 sk sv src dk dv dst)
  consider (eq) "sk = dk" | (lt) "sk < dk" | (gt) "dk < sk" by (meson linorder_cases)
  then show ?case
  proof cases
    case eq
    have "merge_entries ((sk, sv) # src) ((dk, dv) # dst) = merge_entry ((sk, sv) # src) ((dk, dv) # dst) sk @ merge_entries src dst"
      using 4(4,5) eq by (intro merge_entries_Cons) (auto simp: merge_entry_def list_all_iff split: option.splits)
    then show ?thesis using 4 eq by (simp add: merge_entry_def)
  next
    case lt
    have "merge_entries ((sk, sv) # src) ((dk, dv) # dst) = merge_entry ((sk, sv) # src) ((dk, dv) # dst) sk @ merge_entries src ((dk, dv) # dst)"
      using 4(4,5) lt by (intro merge_entries_Cons) (auto simp: merge_entry_def list_all_iff split: option.splits)
    moreover have "map_of dst sk = None"
      using 4(5) lt by (intro map_of_None_less) auto
    moreover have "sk \<noteq> dk" using lt by auto
    ultimately show ?thesis using 4 lt by (simp add: merge_entry_def)
  next
    case gt
    have "merge_entries ((sk, sv) # src) ((dk, dv) # dst) = merge_entry ((sk, sv) # src) ((dk, dv) # dst) dk @ merge_entries ((sk, sv) # src) dst"
      using 4(4,5) gt by (intro merge_entries_Cons) (auto simp: merge_entry_def list_all_iff split: option.splits)
    moreover have "map_of src dk = None"
      using 4(4) gt by (intro map_of_None_less) auto
    moreover have "sk \<noteq> dk" "\<not> sk < dk" using gt by auto
    ultimately show ?thesis using 4 gt by (auto simp add: merge_entry_def)
  qed
qed

text \<open>
  C2, as amended. For a new and an existing attribute list that are both strictly sorted
  by key, \<open>setBulkProps\<close> appends to the journal one \<open>Attributes\<close> block for the VNode
  (nothing when no pair is recorded), whose pairs are, in key order: every key only in
  the new list with its value, every key in both lists whose values differ with the new
  value, and every key only in the existing list with \<open>null\<close>, except the existing keys
  that start with \<open>on:\<close> and sort after every key of the new list, for which nothing is
  recorded. Equal key/value pairs give no entry.
\<close>

theorem setBulkProps_merge:
  assumes "sorted_wrt (<) (map fst src)" and "sorted_wrt (<) (map fst dst)"
  shows "b_journal (setBulkProps_loop vnode src dst (bulk0 j)) =
           j @ attr_block vnode False (merge_entries src dst)"
  using loop_journal [of vnode src dst "bulk0 j"] recorded_merge_entries [OF assms]
  by (simp add: bulk0_def)

text \<open>The example of the specification: existing \<open>{a:1, b:2, c:3}\<close> against new
  \<open>{a:1, c:9, d:4}\<close> records the removal of \<open>b\<close>, \<open>c\<close> as 9 and \<open>d\<close> as 4, and nothing
  for \<open>a\<close>.\<close>

theorem setBulkProps_merge_witness:
  "sorted_wrt (<) (map fst [(''a'', VNum 1), (''c'', VNum 9), (''d'', VNum 4)])
   \<and> sorted_wrt (<) (map fst [(''a'', VNum 1), (''b'', VNum 2), (''c'', VNum 3)])
   \<and> merge_entries [(''a'', VNum 1), (''c'', VNum 9), (''d'', VNum 4)]
        [(''a'', VNum 1), (''b'', VNum 2), (''c'', VNum 3)]
       = [(''b'', VNull), (''c'', VNum 9), (''d'', VNum 4)]
   \<and> b_journal (setBulkProps_loop 7 [(''a'', VNum 1), (''c'', VNum 9), (''d'', VNum 4)]
        [(''a'', VNum 1), (''b'', VNum 2), (''c'', VNum 3)] (bulk0 []))
       = [opcode Attributes, VNode 7, VStr ''b'', VNull, VStr ''c'', VNum 9, VStr ''d'', VNum 4]"
proof -
  have s: "sorted_wrt (<) (map fst [(''a'', VNum 1), (''c'', VNum 9), (''d'', VNum 4)])" by simp
  have d: "sorted_wrt (<) (map fst [(''a'', VNum 1), (''b'', VNum 2), (''c'', VNum 3)])" by simp
  have e: "merge_entries [(''a'', VNum 1), (''c'', VNum 9), (''d'', VNum 4)]
        [(''a'', VNum 1), (''b'', VNum 2), (''c'', VNum 3)]
       = [(''b'', VNull), (''c'', VNum 9), (''d'', VNum 4)]"
    by (simp add: merge_entries_def merged_keys_def merge_entry_def)
  show ?thesis
    using setBulkProps_merge [OF s d, of 7 "[]"] s d e by (simp add: attr_block_def)
qed

text \<open>The claim as stated fails where the existing list ends with a key that starts with
  \<open>on:\<close> and the new list does not have it: the merge records no removal for it.\<close>

theorem setBulkProps_removal_counterexample:
  "b_journal (setBulkProps_loop 7 [] [(''on:click'', VQrl ''h'')] (bulk0 []))
     \<noteq> attr_block 7 False (claimed_entries [] [(''on:click'', VQrl ''h'')])"
  by (simp add: bulk0_def startsWith_def claimed_entries_def claimed_entry_def merged_keys_def attr_block_def)



section \<open>The journal applier replays the journal\<close>

text \<open>
  The entries that the diff engine appends, as operations: an opcode with its operands, and
  for \<open>Attributes\<close> the VNode with its run of key/value pairs. \<open>encode\<close> is the flat
  form they have in the journal. \<open>run_op\<close> is what the specification asks of the
  applier for each of them: the tree primitive of the opcode; for \<open>Move\<close> a remove without
  cleanup and then an insert-before; for \<open>Attributes\<close> each pair to the property setter
  when its key starts with \<open>on\<close> and ends with \<open>$\<close>, to the attribute setter otherwise.
  \<open>run_ops\<close> runs a list of operations in order and stops at the first error.
\<close>

datatype jop =
    OTextSet jsval jsval
  | OInsert jsval jsval jsval
  | OTruncate jsval jsval
  | ORemove jsval jsval
  | OMove jsval jsval jsval
  | OAttributes jsval attrs

definition flat_pairs :: "attrs \<Rightarrow> jsval list" where
  "flat_pairs kvs = concat (map (\<lambda>kv. [VStr (fst kv), snd kv]) kvs)"

fun encode :: "jop \<Rightarrow> jsval list" where
  "encode (OTextSet n v) = [opcode TextSet, n, v]"
| "encode (OInsert p n b) = [opcode Insert, p, n, b]"
| "encode (OTruncate p n) = [opcode Truncate, p, n]"
| "encode (ORemove p n) = [opcode Remove, p, n]"
| "encode (OMove p n b) = [opcode Move, p, n, b]"
| "encode (OAttributes n kvs) = [opcode Attributes, n] @ flat_pairs kvs"

definition encode_all :: "jop list \<Rightarrow> jsval list" where
  "encode_all ops = concat (map encode ops)"

fun run_pairs :: "'w primitives \<Rightarrow> jsval \<Rightarrow> attrs \<Rightarrow> 'w \<Rightarrow> error + 'w" where
  "run_pairs P n [] w = Inr w"
| "run_pairs P n ((key, val) # kvs) w =
     (case (if startsWith key ''on'' \<and> endsWith key ''$''
            then p_setProp P n key val w else p_setAttr P n key val w) of
        Inl e \<Rightarrow> Inl e
      | Inr w' \<Rightarrow> run_pairs P n kvs w')"

fun run_op :: "'w primitives \<Rightarrow> jop \<Rightarrow> 'w \<Rightarrow> error + 'w" where
  "run_op P (OTextSet n v) w = p_setText P n v w"
| "run_op P (OInsert p n b) w = p_insertBefore P p n b w"
| "run_op P (OTruncate p n) w = p_truncate P p n w"
| "run_op P (ORemove p n) w = p_remove P p n True w"
| "run_op P (OMove p n b) w =
     (case p_remove P p n False w of Inl e \<Rightarrow> Inl e | Inr w' \<Rightarrow> p_insertBefore P p n b w')"
| "run_op P (OAttributes n kvs) w = run_pairs P n kvs w"

fun run_ops :: "'w primitives \<Rightarrow> jop list \<Rightarrow> 'w \<Rightarrow> error + 'w" where
  "run_ops P [] w = Inr w"
| "run_ops P (x # xs) w = (case run_op P x w of Inl e \<Rightarrow> Inl e | Inr w' \<Rightarrow> run_ops P xs w')"

definition starts_with_string :: "jsval list \<Rightarrow> bool" where
  "starts_with_string xs = (case xs of VStr s # _ \<Rightarrow> True | _ \<Rightarrow> False)"

lemma nth_js_append [simp]: "nth_js (pre @ xs) (length pre + k) = nth_js xs k"
  by (simp add: nth_js_def nth_append)

lemma nth_js_append0 [simp]: "nth_js (pre @ xs) (length pre) = nth_js xs 0"
  using nth_js_append [of pre xs 0] by simp

lemma nth_js_Cons_0 [simp]: "nth_js (x # xs) 0 = x"
  by (simp add: nth_js_def)

lemma nth_js_Cons_Suc [simp]: "nth_js (x # xs) (Suc k) = nth_js xs k"
  by (simp add: nth_js_def)

lemma nth_js_append1 [simp]: "nth_js (pre @ xs) (Suc (length pre)) = nth_js xs 1"
  by (simp add: nth_js_def nth_append)

lemma nth_js_append2 [simp]: "nth_js (pre @ xs) (Suc (Suc (length pre))) = nth_js xs 2"
  by (simp add: nth_js_def nth_append)

lemma nth_js_append3 [simp]: "nth_js (pre @ xs) (Suc (Suc (Suc (length pre)))) = nth_js xs 3"
  by (simp add: nth_js_def nth_append)

lemma nth_js_Cons_numeral [simp]: "nth_js (x # xs) (numeral k) = nth_js xs (pred_numeral k)"
  by (simp add: nth_js_def)

lemma nth_js_Nil [simp]: "nth_js [] k = VUndefined"
  by (simp add: nth_js_def)

lemma attributes_loop_run:
  "\<not> starts_with_string post \<Longrightarrow>
   attributes_loop P (pre @ flat_pairs kvs @ post) n (length pre) w =
     (case run_pairs P n kvs w of
        Inl e \<Rightarrow> Inl e
      | Inr w' \<Rightarrow> Inr (length pre + 2 * length kvs, w'))"
proof (induction kvs arbitrary: pre w)
  case Nil
  then have "\<And>s. nth_js post 0 \<noteq> VStr s"
    by (cases post) (auto simp: starts_with_string_def split: jsval.splits)
  then show ?case
    by (subst attributes_loop.simps) (simp add: flat_pairs_def split: jsval.splits)
next
  case (Cons kv kvs)
  obtain key val where kv: "kv = (key, val)" by (cases kv)
  let ?jn = "pre @ flat_pairs (kv # kvs) @ post"
  let ?r = "if startsWith key ''on'' \<and> endsWith key ''$''
            then p_setProp P n key val w else p_setAttr P n key val w"
  have jn: "?jn = (pre @ [VStr key, val]) @ flat_pairs kvs @ post"
    by (simp add: kv flat_pairs_def)
  have k0: "nth_js ?jn (length pre) = VStr key"
    by (simp add: kv flat_pairs_def nth_js_def nth_append)
  have k1: "nth_js ?jn (length pre + 1) = val"
    by (simp add: kv flat_pairs_def nth_js_def nth_append)
  have IH: "\<And>w1. attributes_loop P ?jn n (length pre + 2) w1 =
     (case run_pairs P n kvs w1 of Inl e \<Rightarrow> Inl e
      | Inr w' \<Rightarrow> Inr (length (pre @ [VStr key, val]) + 2 * length kvs, w'))"
    using Cons.IH [OF Cons.prems, of "pre @ [VStr key, val]"] by (simp only: jn length_append list.size) simp
  have "attributes_loop P ?jn n (length pre) w =
      (case ?r of Inl e \<Rightarrow> Inl e | Inr w' \<Rightarrow> attributes_loop P ?jn n (length pre + 2) w')"
    by (subst attributes_loop.simps) (simp only: k0 k1 jsval.case Let_def)
  also have "\<dots> = (case ?r of Inl e \<Rightarrow> Inl e | Inr w' \<Rightarrow>
      (case run_pairs P n kvs w' of Inl e \<Rightarrow> Inl e
       | Inr w'' \<Rightarrow> Inr (length (pre @ [VStr key, val]) + 2 * length kvs, w'')))"
    by (simp only: IH)
  also have "\<dots> = (case run_pairs P n (kv # kvs) w of Inl e \<Rightarrow> Inl e
      | Inr w' \<Rightarrow> Inr (length pre + 2 * length (kv # kvs), w'))"
    by (simp add: kv split: sum.splits)
  finally show ?case .
qed

lemma encode_opcode: "\<exists>c rest. encode x = VNum c # rest"
  by (cases x) auto

lemma not_string_encode_all: "\<not> starts_with_string post \<Longrightarrow> \<not> starts_with_string (encode_all ops @ post)"
proof (cases ops)
  case Nil
  assume "\<not> starts_with_string post"
  then show ?thesis using Nil by (simp add: encode_all_def)
next
  case (Cons x xs)
  obtain c rest where "encode x = VNum c # rest" using encode_opcode by blast
  then show ?thesis using Cons by (simp add: encode_all_def starts_with_string_def)
qed

lemma add_4_eq_Suc: "n + 4 = Suc (Suc (Suc (Suc n)))"
  by simp

lemma add_3_eq_Suc3: "n + 3 = Suc (Suc (Suc n))"
  by simp

lemma apply_loop_op:
  assumes "\<not> starts_with_string post"
  shows "apply_loop P (pre @ encode x @ post) (length pre) w =
     (case run_op P x w of
        Inl e \<Rightarrow> Inl e
      | Inr w' \<Rightarrow> apply_loop P (pre @ encode x @ post) (length pre + length (encode x)) w')"
proof (cases x)
  case (OAttributes n kvs)
  have "attributes_loop P ((pre @ [opcode Attributes, n]) @ flat_pairs kvs @ post) n (length (pre @ [opcode Attributes, n])) w =
     (case run_pairs P n kvs w of Inl e \<Rightarrow> Inl e
      | Inr w' \<Rightarrow> Inr (length (pre @ [opcode Attributes, n]) + 2 * length kvs, w'))"
    using assms by (rule attributes_loop_run)
  then have a: "attributes_loop P (pre @ VNum 6 # n # flat_pairs kvs @ post) n (Suc (Suc (length pre))) w =
     (case run_pairs P n kvs w of Inl e \<Rightarrow> Inl e
      | Inr w' \<Rightarrow> Inr (Suc (Suc (length pre + 2 * length kvs)), w'))"
    by (simp split: sum.splits)
  have l: "length (flat_pairs kvs) = 2 * length kvs"
    by (induction kvs) (simp_all add: flat_pairs_def)
  show ?thesis
    by (subst apply_loop.simps) (simp add: OAttributes a l add_2_eq_Suc' add_3_eq_Suc3 add_4_eq_Suc split: sum.splits)
next
  case (OTextSet n v)
  show ?thesis unfolding OTextSet by (subst apply_loop.simps) (simp add: add_2_eq_Suc' add_3_eq_Suc3 add_4_eq_Suc split: sum.splits)
next
  case (OInsert p n b)
  show ?thesis unfolding OInsert by (subst apply_loop.simps) (simp add: add_2_eq_Suc' add_3_eq_Suc3 add_4_eq_Suc split: sum.splits)
next
  case (OTruncate p n)
  show ?thesis unfolding OTruncate by (subst apply_loop.simps) (simp add: add_2_eq_Suc' add_3_eq_Suc3 add_4_eq_Suc split: sum.splits)
next
  case (ORemove p n)
  show ?thesis unfolding ORemove by (subst apply_loop.simps) (simp add: add_2_eq_Suc' add_3_eq_Suc3 add_4_eq_Suc split: sum.splits)
next
  case (OMove p n b)
  show ?thesis unfolding OMove by (subst apply_loop.simps) (simp add: add_2_eq_Suc' add_3_eq_Suc3 add_4_eq_Suc split: sum.splits)
qed



lemma apply_loop_ops:
  assumes "\<not> starts_with_string post"
  shows "apply_loop P (pre @ encode_all ops @ post) (length pre) w =
     (case run_ops P ops w of
        Inl e \<Rightarrow> Inl e
      | Inr w' \<Rightarrow> apply_loop P (pre @ encode_all ops @ post) (length pre + length (encode_all ops)) w')"
proof (induction ops arbitrary: pre w)
  case Nil
  show ?case by (simp add: encode_all_def)
next
  case (Cons x xs)
  let ?jn = "pre @ encode_all (x # xs) @ post"
  have ns: "\<not> starts_with_string (encode_all xs @ post)"
    using assms by (rule not_string_encode_all)
  have J1: "?jn = pre @ encode x @ (encode_all xs @ post)"
    by (simp add: encode_all_def)
  have J2: "?jn = (pre @ encode x) @ encode_all xs @ post"
    by (simp add: encode_all_def)
  have len: "length pre + length (encode_all (x # xs)) = length (pre @ encode x) + length (encode_all xs)"
    by (simp add: encode_all_def)
  have step: "apply_loop P ?jn (length pre) w =
     (case run_op P x w of Inl e \<Rightarrow> Inl e
      | Inr w' \<Rightarrow> apply_loop P ?jn (length (pre @ encode x)) w')"
    using apply_loop_op [OF ns, of P pre x w] by (simp only: J1 length_append)
  have rest: "\<And>w'. apply_loop P ?jn (length (pre @ encode x)) w' =
     (case run_ops P xs w' of Inl e \<Rightarrow> Inl e
      | Inr w'' \<Rightarrow> apply_loop P ?jn (length pre + length (encode_all (x # xs))) w'')"
    using Cons.IH [of "pre @ encode x"] by (simp only: J2 len)
  show ?case
  proof (cases "run_op P x w")
    case (Inl e)
    then show ?thesis by (simp only: step run_ops.simps sum.case)
  next
    case (Inr w1)
    then show ?thesis by (simp only: step rest run_ops.simps sum.case)
  qed
qed

lemma apply_replays:
  "vnode_applyJournal P (encode_all ops) w =
     (case run_ops P ops w of
        Inl e \<Rightarrow> (Inl e, encode_all ops)
      | Inr w' \<Rightarrow> (Inr w', []))"
proof -
  have "apply_loop P ([] @ encode_all ops @ []) (length ([] :: jsval list)) w =
     (case run_ops P ops w of Inl e \<Rightarrow> Inl e
      | Inr w' \<Rightarrow> apply_loop P ([] @ encode_all ops @ []) (length ([] :: jsval list) + length (encode_all ops)) w')"
    by (rule apply_loop_ops) (simp add: starts_with_string_def)
  then have a: "apply_loop P (encode_all ops) 0 w =
     (case run_ops P ops w of Inl e \<Rightarrow> Inl e
      | Inr w' \<Rightarrow> apply_loop P (encode_all ops) (length (encode_all ops)) w')"
    by (simp cong: sum.case_cong)
  have b: "\<And>w'. apply_loop P (encode_all ops) (length (encode_all ops)) w' = Inr w'"
    by (subst apply_loop.simps) simp
  show ?thesis
    by (cases "run_ops P ops w") (simp_all add: vnode_applyJournal_def a b)
qed

text \<open>
  C8. On the journal of any list of operations, in any world and with any primitives,
  \<open>vnode_applyJournal\<close> does what running the operations one after the other in their
  order does (one pass, each opcode to its primitive, \<open>Move\<close> as remove without cleanup
  then insert-before, the pairs of an \<open>Attributes\<close> run to the property or the
  attribute setter by the shape of the key), and it leaves the journal empty; when a
  primitive fails, the error comes out and the journal is left as it was.
\<close>

theorem applyJournal_replays:
  "vnode_applyJournal P (encode_all ops) w =
     (case run_ops P ops w of
        Inl e \<Rightarrow> (Inl e, encode_all ops)
      | Inr w' \<Rightarrow> (Inr w', []))"
  by (rule apply_replays)



section \<open>Example trees\<close>

text \<open>
  Stores for the examples: the nodes are listed by address. \<open>in_frame t p c chs\<close> is the
  state of the traversal inside a parent \<open>p\<close> with the cursor at \<open>c\<close> and the child
  descriptors \<open>chs\<close> still to visit. \<open>diff_then_apply\<close> is one pass of the caller: the
  diff on an empty journal, then the applier on the journal it filled.
\<close>

definition blank :: vnode where
  "blank = \<lparr>kind = KVirtual, elementName = [], textValue = [], props = [], children = [],
            parent = None, qDispatchEvent = False\<rparr>"

definition store_of :: "vnode list \<Rightarrow> store" where
  "store_of ns = \<lparr>node = (\<lambda>i. if i < length ns then ns ! i else blank), fresh = length ns\<rparr>"

definition element :: "string \<Rightarrow> attrs \<Rightarrow> nat list \<Rightarrow> nat option \<Rightarrow> vnode" where
  "element tag ps cs p =
     \<lparr>kind = KElement, elementName = tag, textValue = [], props = ps, children = cs,
      parent = p, qDispatchEvent = False\<rparr>"

definition text_node :: "string \<Rightarrow> nat option \<Rightarrow> vnode" where
  "text_node s p =
     \<lparr>kind = KText, elementName = [], textValue = s, props = [], children = [],
      parent = p, qDispatchEvent = False\<rparr>"

definition virtual :: "attrs \<Rightarrow> nat list \<Rightarrow> nat option \<Rightarrow> vnode" where
  "virtual ps cs p =
     \<lparr>kind = KVirtual, elementName = [], textValue = [], props = ps, children = cs,
      parent = p, qDispatchEvent = False\<rparr>"

definition no_exec :: executor where
  "no_exec q h p = JUndefined"

definition journal_of :: "(error + dstate) option \<Rightarrow> jsval list option" where
  "journal_of r = (case r of Some (Inr s) \<Rightarrow> Some (journal s) | _ \<Rightarrow> None)"

definition host_only :: store where
  "host_only = store_of [virtual [] [] None]"

definition apply_tree :: "jsval list \<Rightarrow> store \<Rightarrow> store option" where
  "apply_tree jn t = (case fst (vnode_applyJournal tree_primitives jn t) of Inl e \<Rightarrow> None | Inr t' \<Rightarrow> Some t')"

definition diff_then_apply :: "executor \<Rightarrow> nat \<Rightarrow> store \<Rightarrow> jsx \<Rightarrow> nat \<Rightarrow> store option" where
  "diff_then_apply ex fuel t d start =
     (case vnode_diff ex fuel t [] d start of
        Some (Inr s) \<Rightarrow> apply_tree (journal s) (vtree s)
      | _ \<Rightarrow> None)"

definition three_children :: store where
  "three_children =
     store_of [virtual [] [1] None, element ''div'' [] [2, 3, 4] (Some 0),
       text_node ''x'' (Some 1), element ''b'' [] [] (Some 1), text_node ''y'' (Some 1)]"

definition in_frame :: "store \<Rightarrow> nat \<Rightarrow> nat option \<Rightarrow> jsx \<Rightarrow> dstate" where
  "in_frame t p c chs = (stackPush chs True (init_state t []))\<lparr>vParent := p, vCurrent := c\<rparr>"

definition cursor_chain :: "dstate \<Rightarrow> nat list" where
  "cursor_chain s = (case vCurrent s of None \<Rightarrow> [] | Some c \<Rightarrow> c # following (vtree s) c)"

definition two_texts :: store where
  "two_texts =
     store_of [virtual [] [1] None, element ''div'' [] [2, 3] (Some 0),
       text_node ''x'' (Some 1), text_node ''y'' (Some 1)]"

section \<open>What the cursor moves leave alone\<close>

definition same_heap :: "dstate \<Rightarrow> dstate \<Rightarrow> bool" where
  "same_heap s s' = (vtree s' = vtree s \<and> journal s' = journal s \<and> asyncQueue s' = asyncQueue s)"

lemma same_heap_advance_cursor: "same_heap s (advance_cursor s)"
  by (simp add: same_heap_def advance_cursor_def Let_def split: option.splits)

lemma same_heap_restore: "same_heap s (restore f s)"
  by (simp add: same_heap_def restore_def Let_def split: option.splits prod.splits)

lemma same_heap_advance_ascend:
  "same_heap s (advance s)"
  "same_heap s (ascend s)"
proof (induction s and s rule: advance_ascend.induct)
  case (1 s)
  then show ?case
    using same_heap_advance_cursor [of "s\<lparr>jsxIdx := Suc (jsxIdx s)\<rparr>"]
      same_heap_advance_cursor [of "s\<lparr>jsxIdx := Suc (jsxIdx s), jsxValue := nth_jsx (jsxChildren s) (Suc (jsxIdx s))\<rparr>"]
    by (simp add: advance.simps [of s] same_heap_def Let_def)
next
  case (2 s)
  show ?case
  proof (cases "stack s")
    case Nil
    then show ?thesis
      using same_heap_advance_cursor [of "s\<lparr>jsxValue := JUndefined, jsxCount := 0, jsxIdx := 0, jsxChildren := []\<rparr>"]
      by (simp add: ascend.simps [of s] same_heap_def)
  next
    case (Cons f fs)
    then show ?thesis
      using "2.IH" [OF Cons] same_heap_restore [of "s\<lparr>stack := fs\<rparr>" f]
      by (simp add: ascend.simps [of s] same_heap_def)
  qed
qed

lemma journal_advance [simp]: "journal (advance s) = journal s"
  using same_heap_advance_ascend(1) [of s] by (simp add: same_heap_def)

lemma journal_ascend [simp]: "journal (ascend s) = journal s"
  using same_heap_advance_ascend(2) [of s] by (simp add: same_heap_def)

lemma journal_expectText:
  "journal (expectText txt s) = journal s @
     (case vCurrent s of
        None \<Rightarrow> [opcode Insert, VNode (vParent s), VNode (fresh (vtree s)), VNull]
      | Some c \<Rightarrow>
          if vnode_getType (vtree s) c = 3
          then (if txt \<noteq> vnode_getText (vtree s) c then [opcode TextSet, VNode c, VStr txt] else [])
          else [opcode Insert, VNode (vParent s), VNode (fresh (vtree s)), VNode c])"
  by (simp add: expectText_def vnode_newText_def new_node_def node_or_null_def Let_def split: option.splits)


section \<open>Fatal descriptors and opcodes\<close>

text \<open>The descriptors for which the dispatch of \<open>diff\<close> throws: a signal, \<open>null\<close> or another
  object of unknown shape, a slot, and a JSX node whose type is none of the supported ones.\<close>

fun unsupported :: "jsx \<Rightarrow> bool" where
  "unsupported JSignal = True"
| "unsupported JNull = True"
| "unsupported JObject = True"
| "unsupported (JSXNode TSlot p k c chs) = True"
| "unsupported (JSXNode TOther p k c chs) = True"
| "unsupported j = False"

lemma dispatch_unsupported: "unsupported (jsxValue s) \<Longrightarrow> \<exists>e. dispatch ex s = Inl e"
  by (cases "jsxValue s" rule: unsupported.cases) (simp_all add: dispatch_def expectSlot_def)

lemma diff_loop_unsupported:
  "jsxIdx s < jsxCount s \<Longrightarrow> unsupported (jsxValue s) \<Longrightarrow> \<exists>e. diff_loop ex s = Inl e"
  using dispatch_unsupported [of s ex] by (subst diff_loop.simps) auto

lemma stackPush_single:
  "unsupported d \<Longrightarrow> jsxIdx (stackPush d b s) < jsxCount (stackPush d b s) \<and> jsxValue (stackPush d b s) = d"
  by (cases d rule: unsupported.cases) (simp_all add: stackPush_def Let_def)

lemma diff_unsupported: "unsupported d \<Longrightarrow> \<exists>e. diff ex d start s = Inl e"
  unfolding diff_def using stackPush_single diff_loop_unsupported by metis

lemma apply_unknown_opcode:
  assumes "c \<notin> {0, 1, 2, 3, 4, 6}" "run_ops P ops w = Inr w'"
  shows "vnode_applyJournal P (encode_all ops @ VNum c # rest) w =
           (Inl UnsupportedOpCode, encode_all ops @ VNum c # rest)"
proof -
  let ?jn = "encode_all ops @ VNum c # rest"
  have "apply_loop P ([] @ encode_all ops @ VNum c # rest) (length ([] :: jsval list)) w =
     (case run_ops P ops w of Inl e \<Rightarrow> Inl e
      | Inr w' \<Rightarrow> apply_loop P ([] @ encode_all ops @ VNum c # rest)
           (length ([] :: jsval list) + length (encode_all ops)) w')"
    by (rule apply_loop_ops) (simp add: starts_with_string_def)
  then have a: "apply_loop P ?jn 0 w = apply_loop P ?jn (length (encode_all ops)) w'"
    using assms(2) by simp
  have b: "apply_loop P ?jn (length (encode_all ops)) w' = Inl UnsupportedOpCode"
    using assms(1) by (subst apply_loop.simps) simp
  show ?thesis by (simp add: vnode_applyJournal_def a b)
qed

text \<open>
  C9. When the loop of \<open>diff\<close> stands at an unsupported descriptor or a slot, the diff ends
  with an error; a diff that is handed such a descriptor ends with an error whatever the
  fuel; an error of a diff inside \<open>drainAsyncQueue\<close> ends the drain with that error (the
  pair is not tried again and the pairs behind it are not diffed); and when the applier
  meets a number that is not one of its six opcodes after a run of well-formed entries, it
  ends with the error of the unsupported opcode and the journal is left as it was.
  \<open>throwErrorAndStop\<close> is taken to throw, as the specification says of a fatal error.
\<close>

theorem unsupported_is_fatal:
  "(jsxIdx s < jsxCount s \<longrightarrow> unsupported (jsxValue s) \<longrightarrow> (\<exists>e. diff_loop ex s = Inl e))
   \<and> (unsupported d \<longrightarrow> (\<exists>e. vnode_diff ex fuel t j d start = Some (Inl e)))
   \<and> (diff ex d h (s\<lparr>asyncQueue := q\<rparr>) = Inl e \<longrightarrow>
        drainAsyncQueue ex (Suc n) (s\<lparr>asyncQueue := (d, h) # q\<rparr>) = Some (Inl e))
   \<and> (c \<notin> {0, 1, 2, 3, 4, 6} \<longrightarrow> run_ops P ops w = Inr w' \<longrightarrow>
        vnode_applyJournal P (encode_all ops @ VNum c # rest) w =
          (Inl UnsupportedOpCode, encode_all ops @ VNum c # rest))"
proof (intro conjI impI)
  show "\<exists>e. diff_loop ex s = Inl e" if "jsxIdx s < jsxCount s" "unsupported (jsxValue s)"
    using that by (rule diff_loop_unsupported)
  show "\<exists>e. vnode_diff ex fuel t j d start = Some (Inl e)" if "unsupported d"
    using diff_unsupported [OF that, of ex start "init_state t j"] by (auto simp: vnode_diff_def)
  show "drainAsyncQueue ex (Suc n) (s\<lparr>asyncQueue := (d, h) # q\<rparr>) = Some (Inl e)"
    if "diff ex d h (s\<lparr>asyncQueue := q\<rparr>) = Inl e"
    using that by (simp add: drainAsyncQueue.simps [of ex "Suc n"])
  show "vnode_applyJournal P (encode_all ops @ VNum c # rest) w =
          (Inl UnsupportedOpCode, encode_all ops @ VNum c # rest)"
    if "c \<notin> {0, 1, 2, 3, 4, 6}" "run_ops P ops w = Inr w'"
    using that by (rule apply_unknown_opcode)
qed

text \<open>The theorem at a signal, a slot and \<open>null\<close> under an empty host, and at the opcode 5
  (\<open>ElementInsert\<close>, which the applier does not handle) after one \<open>TextSet\<close> entry.\<close>

theorem unsupported_is_fatal_witness:
  "jsxIdx (stackPush JSignal True (init_state host_only [])) < jsxCount (stackPush JSignal True (init_state host_only []))
   \<and> unsupported (jsxValue (stackPush JSignal True (init_state host_only [])))
   \<and> (\<exists>e. diff_loop no_exec (stackPush JSignal True (init_state host_only [])) = Inl e)
   \<and> unsupported (JSXNode TSlot [] VNull None JUndefined)
   \<and> (\<exists>e. vnode_diff no_exec 0 host_only [] (JSXNode TSlot [] VNull None JUndefined) 0 = Some (Inl e))
   \<and> diff no_exec JNull 0 ((init_state host_only [])\<lparr>asyncQueue := []\<rparr>) = Inl Unsupported
   \<and> drainAsyncQueue no_exec (Suc 0) ((init_state host_only [])\<lparr>asyncQueue := [(JNull, 0)]\<rparr>) = Some (Inl Unsupported)
   \<and> (5 :: int) \<notin> {0, 1, 2, 3, 4, 6}
   \<and> run_ops tree_primitives [OTextSet (VNode 0) (VStr ''x'')] host_only = Inr (vnode_setText host_only 0 ''x'')
   \<and> vnode_applyJournal tree_primitives (encode_all [OTextSet (VNode 0) (VStr ''x'')] @ VNum 5 # [VNode 0]) host_only
        = (Inl UnsupportedOpCode, encode_all [OTextSet (VNode 0) (VStr ''x'')] @ VNum 5 # [VNode 0])"
proof -
  let ?s = "stackPush JSignal True (init_state host_only [])"
  have h1: "jsxIdx ?s < jsxCount ?s" by (simp add: stackPush_def Let_def)
  have h2: "unsupported (jsxValue ?s)" by (simp add: stackPush_def Let_def)
  have h3: "unsupported (JSXNode TSlot [] VNull None JUndefined)" by simp
  have h4: "diff no_exec JNull 0 ((init_state host_only [])\<lparr>asyncQueue := []\<rparr>) = Inl Unsupported"
    by (subst diff_def, subst diff_loop.simps)
       (simp add: stackPush_def Let_def dispatch_def init_state_def host_only_def store_of_def
          vnode_getFirstChild_def virtual_def)
  have h5: "(5 :: int) \<notin> {0, 1, 2, 3, 4, 6}" by simp
  have h6: "run_ops tree_primitives [OTextSet (VNode 0) (VStr ''x'')] host_only = Inr (vnode_setText host_only 0 ''x'')"
    by (simp add: tree_primitives_def)
  note T = unsupported_is_fatal [where s = ?s and ex = no_exec
      and d = "JSXNode TSlot [] VNull None JUndefined" and fuel = 0 and t = host_only
      and j = "[]" and start = 0]
  note U = unsupported_is_fatal [where ex = no_exec and d = JNull and h = 0
      and s = "init_state host_only []" and q = "[]" and e = Unsupported and n = 0 and c = 5
      and P = tree_primitives and ops = "[OTextSet (VNode 0) (VStr ''x'')]" and w = host_only
      and w' = "vnode_setText host_only 0 ''x''" and rest = "[VNode 0]"]
  have c1: "\<exists>e. diff_loop no_exec ?s = Inl e"
    using T [THEN conjunct1, rule_format, OF h1 h2] .
  have c2: "\<exists>e. vnode_diff no_exec 0 host_only [] (JSXNode TSlot [] VNull None JUndefined) 0 = Some (Inl e)"
    using T [THEN conjunct2, THEN conjunct1, rule_format, OF h3] .
  have c3: "drainAsyncQueue no_exec (Suc 0) ((init_state host_only [])\<lparr>asyncQueue := [(JNull, 0)]\<rparr>) = Some (Inl Unsupported)"
    using U [THEN conjunct2, THEN conjunct2, THEN conjunct1, rule_format, OF h4] .
  have c4: "vnode_applyJournal tree_primitives (encode_all [OTextSet (VNode 0) (VStr ''x'')] @ VNum 5 # [VNode 0]) host_only
        = (Inl UnsupportedOpCode, encode_all [OTextSet (VNode 0) (VStr ''x'')] @ VNum 5 # [VNode 0])"
    using U [THEN conjunct2, THEN conjunct2, THEN conjunct2, rule_format, OF h5 h6] .
  show ?thesis
    using h1 h2 h3 h4 h5 h6 c1 c2 c3 c4 by (intro conjI)
qed

section \<open>Values that are neither text nor objects\<close>





section \<open>Truncation\<close>

text \<open>A \<open>div\<close> descriptor with the given children, and a \<open>div\<close> that holds the one text
  node \<open>a\<close>.\<close>

definition div_of :: "jsx \<Rightarrow> jsx" where
  "div_of chs = JSXNode (TTag ''div'') [] VNull None chs"

definition div_text_a :: store where
  "div_text_a =
     store_of [virtual [] [1] None, element ''div'' [] [2] (Some 0), text_node ''a'' (Some 1)]"

lemma children_truncate:
  "children (node (vnode_truncate t p c) p) = takeWhile (\<lambda>m. m \<noteq> c) (children (node t p))"
  by (simp add: vnode_truncate_def upd_node_def Let_def)

lemma apply_truncate:
  "vnode_applyJournal tree_primitives [opcode Truncate, VNode p, VNode c] t = (Inr (vnode_truncate t p c), [])"
  using apply_replays [of tree_primitives "[OTruncate (VNode p) (VNode c)]" t]
  by (simp add: encode_all_def tree_primitives_def)

text \<open>Where the loop of \<open>diff\<close> leaves its inner loop it calls \<open>expectNoMore\<close>, which
  appends one \<open>Truncate\<close> at the cursor, or nothing when the cursor is \<open>null\<close>, and
  \<open>ascend\<close> adds nothing.\<close>

lemma loop_exit_truncates:
  assumes "\<not> jsxIdx s < jsxCount s" and "vCurrent s \<noteq> Some (vParent s)"
  shows "\<exists>s1. expectNoMore s = Inr s1
         \<and> journal (ascend s1) = journal s @
             (case vCurrent s of None \<Rightarrow> [] | Some c \<Rightarrow> [opcode Truncate, VNode (vParent s), VNode c])
         \<and> diff_loop ex s = (if stack (ascend s1) = [] then Inr (ascend s1) else diff_loop ex (ascend s1))"
proof -
  let ?s1 = "case vCurrent s of None \<Rightarrow> s
             | Some c \<Rightarrow> s\<lparr>journal := journal s @ [opcode Truncate, VNode (vParent s), VNode c]\<rparr>"
  have e: "expectNoMore s = Inr ?s1" using assms(2) by (simp add: expectNoMore_def)
  have j: "journal (ascend ?s1) = journal s @
      (case vCurrent s of None \<Rightarrow> [] | Some c \<Rightarrow> [opcode Truncate, VNode (vParent s), VNode c])"
    by (simp split: option.splits)
  have l: "diff_loop ex s = (if stack (ascend ?s1) = [] then Inr (ascend ?s1) else diff_loop ex (ascend ?s1))"
    using assms(1) e by (subst diff_loop.simps) (simp add: Let_def)
  show ?thesis using e j l by blast
qed

text \<open>
  C5 fails on the code. The inner loop is also left in the frame that \<open>descend\<close> pushes
  for an array among the children (\<open>descendVNode\<close> is \<open>false\<close>: the array is on the level
  of its siblings): when that array is empty the loop goes straight to \<open>expectNoMore\<close>, which
  truncates at the cursor although the children list of the element is not exhausted. A
  non-empty array is left through \<open>advance\<close>, which pops its frame without
  \<open>expectNoMore\<close>.

  So a \<open>div\<close> with the children \<open>[[], []]\<close> against a \<open>div\<close> with three children gives
  three \<open>Truncate\<close> entries, one at each child, where the literal empty list gives the one
  entry at the first child. And the children \<open>[[], 'a']\<close> against a \<open>div\<close> that holds the
  text \<open>a\<close> truncate that text node, which the descriptor \<open>'a'\<close> would have matched, and
  insert a new one: the journal is empty for the children \<open>['a']\<close>, and after it is applied
  for \<open>[[], 'a']\<close> the \<open>div\<close> holds a new node and the old one is unlinked.
\<close>

theorem empty_array_truncates_mid_frame:
  "journal_of (vnode_diff no_exec 0 three_children [] (div_of (JArray [])) 0)
     = Some (encode_all [OTruncate (VNode 1) (VNode 2)])
   \<and> journal_of (vnode_diff no_exec 0 three_children [] (div_of (JArray [JArray [], JArray []])) 0)
     = Some (encode_all [OTruncate (VNode 1) (VNode 2), OTruncate (VNode 1) (VNode 3),
                         OTruncate (VNode 1) (VNode 4)])
   \<and> journal_of (vnode_diff no_exec 0 div_text_a [] (div_of (JArray [JString ''a''])) 0) = Some []
   \<and> journal_of (vnode_diff no_exec 0 div_text_a [] (div_of (JArray [JArray [], JString ''a''])) 0)
     = Some (encode_all [OTruncate (VNode 1) (VNode 2), OInsert (VNode 1) (VNode 3) VNull])
   \<and> map_option (\<lambda>t. (children (node t 1), parent (node t 2)))
        (diff_then_apply no_exec 0 div_text_a (div_of (JArray [JArray [], JString ''a''])) 0)
     = Some ([3], None)"
  by code_simp


section \<open>Stale text nodes\<close>

lemma text_run_char:
  "text_run t p cs =
     (concat (map (\<lambda>c. [opcode Remove, VNode p, VNode c]) (takeWhile (\<lambda>c. vnode_getType t c = 3) cs)),
      case dropWhile (\<lambda>c. vnode_getType t c = 3) cs of [] \<Rightarrow> None | c # _ \<Rightarrow> Some c)"
  by (induction cs) (simp_all add: Let_def)

lemma expectNoMoreTextNodes_char:
  "journal (expectNoMoreTextNodes s) = journal s @
      concat (map (\<lambda>c. [opcode Remove, VNode (vParent s), VNode c])
        (takeWhile (\<lambda>c. vnode_getType (vtree s) c = 3) (cursor_chain s)))
   \<and> vCurrent (expectNoMoreTextNodes s) =
      (case dropWhile (\<lambda>c. vnode_getType (vtree s) c = 3) (cursor_chain s) of
         [] \<Rightarrow> None | c # _ \<Rightarrow> Some c)
   \<and> vtree (expectNoMoreTextNodes s) = vtree s"
  by (cases "vCurrent s")
     (simp_all add: expectNoMoreTextNodes_def cursor_chain_def text_run_char Let_def del: text_run.simps)

text \<open>
  The claim C6 as stated fails: with the cursor on the text node \<open>x\<close>, followed by the text
  node \<open>y\<close>, and the single text descriptor \<open>a\<close>, the dispatch appends only the \<open>TextSet\<close>
  of \<open>x\<close>; no \<open>Remove\<close> is recorded for \<open>y\<close>, which has no descriptor.
\<close>

theorem text_descriptor_keeps_stale_text:
  "jsxValue (in_frame two_texts 1 (Some 2) (JString ''a'')) = JString ''a''
   \<and> jsxCount (in_frame two_texts 1 (Some 2) (JString ''a'')) = 1
   \<and> following two_texts 2 = [3]
   \<and> vnode_getType two_texts 3 = 3
   \<and> map_sum id journal (dispatch no_exec (in_frame two_texts 1 (Some 2) (JString ''a'')))
        = Inr [opcode TextSet, VNode 2, VStr ''a'']"
  by (simp add: in_frame_def stackPush_def init_state_def Let_def dispatch_def journal_expectText
      two_texts_def store_of_def following_def vnode_getType_def vnode_getText_def
      element_def text_node_def virtual_def)

text \<open>
  C6, as amended. The purge of stale text nodes is \<open>expectNoMoreTextNodes\<close>: it appends one
  \<open>Remove\<close> entry for each node of the run of text nodes that starts at the cursor and
  leaves the cursor at the first node after the run. The dispatch calls it before it
  matches an element, a fragment or a component, and not before a text descriptor: a
  string or a number reuses the text node at the cursor or inserts a new one, and records
  no \<open>Remove\<close>.
\<close>

theorem stale_text_purged_before_nodes:
  "journal (expectNoMoreTextNodes s) = journal s @
      concat (map (\<lambda>c. [opcode Remove, VNode (vParent s), VNode c])
        (takeWhile (\<lambda>c. vnode_getType (vtree s) c = 3) (cursor_chain s)))
   \<and> vCurrent (expectNoMoreTextNodes s) =
      (case dropWhile (\<lambda>c. vnode_getType (vtree s) c = 3) (cursor_chain s) of
         [] \<Rightarrow> None | c # _ \<Rightarrow> Some c)
   \<and> (vCurrent s \<noteq> Some (vParent s) \<longrightarrow> jsxValue s = JSXNode (TTag tag) p k a chs \<longrightarrow>
        dispatch ex s = (case expectElement p k a tag (expectNoMoreTextNodes s) of
                           Inl e \<Rightarrow> Inl e | Inr s1 \<Rightarrow> descend chs True s1))
   \<and> (vCurrent s \<noteq> Some (vParent s) \<longrightarrow> jsxValue s = JSXNode TFragment p k a chs \<longrightarrow>
        dispatch ex s = descend chs True (expectVirtual (expectNoMoreTextNodes s)))
   \<and> (vCurrent s \<noteq> Some (vParent s) \<longrightarrow> jsxValue s = JSXNode (TComponent q) p k a chs \<longrightarrow>
        dispatch ex s = (case expectComponent ex q p (expectVirtual (expectNoMoreTextNodes s)) of
                           Inl e \<Rightarrow> Inl e | Inr s1 \<Rightarrow> Inr (advance s1)))
   \<and> (vCurrent s \<noteq> Some (vParent s) \<longrightarrow> jsxValue s = JString txt \<or> (jsxValue s = JNumber i \<and> txt = String_of i) \<longrightarrow>
        dispatch ex s = Inr (advance (expectText txt s))
        \<and> journal (advance (expectText txt s)) = journal s @
             (case vCurrent s of
                None \<Rightarrow> [opcode Insert, VNode (vParent s), VNode (fresh (vtree s)), VNull]
              | Some c \<Rightarrow>
                  if vnode_getType (vtree s) c = 3
                  then (if txt \<noteq> vnode_getText (vtree s) c then [opcode TextSet, VNode c, VStr txt] else [])
                  else [opcode Insert, VNode (vParent s), VNode (fresh (vtree s)), VNode c]))"
  using expectNoMoreTextNodes_char [of s]
  by (auto simp add: dispatch_def journal_expectText)

text \<open>The theorem at a fragment descriptor with the cursor on the text nodes \<open>x\<close> and
  \<open>y\<close>: both are removed and the cursor ends at \<open>null\<close>.\<close>

theorem stale_text_purged_before_nodes_witness:
  "vCurrent (in_frame two_texts 1 (Some 2) (JSXNode TFragment [] VNull None JUndefined))
      \<noteq> Some (vParent (in_frame two_texts 1 (Some 2) (JSXNode TFragment [] VNull None JUndefined)))
   \<and> jsxValue (in_frame two_texts 1 (Some 2) (JSXNode TFragment [] VNull None JUndefined))
      = JSXNode TFragment [] VNull None JUndefined
   \<and> dispatch no_exec (in_frame two_texts 1 (Some 2) (JSXNode TFragment [] VNull None JUndefined))
      = descend JUndefined True (expectVirtual (expectNoMoreTextNodes
          (in_frame two_texts 1 (Some 2) (JSXNode TFragment [] VNull None JUndefined))))
   \<and> journal (expectNoMoreTextNodes (in_frame two_texts 1 (Some 2) (JSXNode TFragment [] VNull None JUndefined)))
      = [opcode Remove, VNode 1, VNode 2, opcode Remove, VNode 1, VNode 3]
   \<and> vCurrent (expectNoMoreTextNodes (in_frame two_texts 1 (Some 2) (JSXNode TFragment [] VNull None JUndefined)))
      = None"
proof -
  let ?d = "JSXNode TFragment [] VNull None JUndefined"
  let ?s = "in_frame two_texts 1 (Some 2) ?d"
  have h1: "vCurrent ?s \<noteq> Some (vParent ?s)" by (simp add: in_frame_def)
  have h2: "jsxValue ?s = ?d" by (simp add: in_frame_def stackPush_def Let_def)
  note T = stale_text_purged_before_nodes [where s = ?s and ex = no_exec and p = "[]" and k = VNull
      and a = None and chs = JUndefined]
  have c: "cursor_chain ?s = [2, 3]" "journal ?s = []" "vParent ?s = 1" "vtree ?s = two_texts"
    by (simp_all add: cursor_chain_def in_frame_def stackPush_def init_state_def Let_def
        two_texts_def store_of_def following_def element_def text_node_def virtual_def)
  have ty: "vnode_getType two_texts 2 = 3" "vnode_getType two_texts 3 = 3"
    by (simp_all add: two_texts_def store_of_def vnode_getType_def text_node_def)
  have c1: "journal (expectNoMoreTextNodes ?s) = [opcode Remove, VNode 1, VNode 2, opcode Remove, VNode 1, VNode 3]"
    using T [THEN conjunct1, unfolded c] by (simp add: ty)
  have c2: "vCurrent (expectNoMoreTextNodes ?s) = None"
    using T [THEN conjunct2, THEN conjunct1, unfolded c] by (simp add: ty)
  have c3: "dispatch no_exec ?s = descend JUndefined True (expectVirtual (expectNoMoreTextNodes ?s))"
    using T [THEN conjunct2, THEN conjunct2, THEN conjunct2, THEN conjunct1, rule_format, OF h1 h2] .
  show ?thesis using h1 h2 c1 c2 c3 by (intro conjI)
qed



section \<open>Component re-render gating\<close>

text \<open>For records without repeated field names, \<open>shallowEqual\<close> is equality of the two
  records as maps from field names to values: one level of key/value equality.\<close>

lemma shallowEqual_loop_char:
  "length xs = length ys \<Longrightarrow>
   shallowEqual_loop a b xs ys \<longleftrightarrow> xs = ys \<and> (\<forall>k\<in>set xs. get_field a k = get_field b k)"
  by (induction xs ys rule: list_induct2) auto

lemma sort_distinct: "distinct xs \<Longrightarrow> sort xs = sorted_list_of_set (set xs)"
  for xs :: "string list"
  by (simp add: sorted_list_of_set_sort_remdups distinct_remdups_id)

lemma map_of_eq_keys:
  assumes "map_of a = map_of b"
  shows "set (map fst a) = set (map fst b)"
proof -
  have "dom (map_of a) = dom (map_of b)" using assms by simp
  then show ?thesis by (simp add: dom_map_of_conv_image_fst)
qed

lemma shallowEqual_iff:
  assumes "distinct (map fst a)" "distinct (map fst b)"
  shows "shallowEqual a b \<longleftrightarrow> map_of a = map_of b"
proof
  assume se: "shallowEqual a b"
  then have len: "length a = length b"
    by (simp add: shallowEqual_def object_keys_def Let_def split: if_splits)
  then have "shallowEqual_loop a b (sort (map fst a)) (sort (map fst b))"
    using se by (simp add: shallowEqual_def object_keys_def Let_def)
  then have keys: "sort (map fst a) = sort (map fst b)"
    and vals: "\<forall>k\<in>set (map fst a). get_field a k = get_field b k"
    using len by (simp_all add: shallowEqual_loop_char)
  have ks: "set (map fst a) = set (map fst b)"
    using keys by (metis set_sort)
  show "map_of a = map_of b"
  proof
    fix k
    show "map_of a k = map_of b k"
    proof (cases "k \<in> set (map fst a)")
      case True
      then obtain v w where "map_of a k = Some v" "map_of b k = Some w"
        using ks by (metis map_of_eq_None_iff not_Some_eq set_map)
      moreover have "get_field a k = get_field b k" using vals True by blast
      ultimately show ?thesis by (simp add: get_field_def)
    next
      case False
      then show ?thesis using ks by (metis map_of_eq_None_iff set_map)
    qed
  qed
next
  assume eq: "map_of a = map_of b"
  have ks: "set (map fst a) = set (map fst b)" using eq by (rule map_of_eq_keys)
  have "length (map fst a) = length (map fst b)"
    using assms ks by (metis distinct_card)
  then have len: "length a = length b" by simp
  have keys: "sort (map fst a) = sort (map fst b)"
    using assms ks by (simp add: sort_distinct)
  have vals: "\<forall>k\<in>set (sort (map fst a)). get_field a k = get_field b k"
    using eq by (simp add: get_field_def)
  show "shallowEqual a b"
    using len keys vals
    by (simp add: shallowEqual_def object_keys_def Let_def shallowEqual_loop_char)
qed


lemma expectNoMoreTextNodes_not_text:
  "vCurrent s = Some c \<Longrightarrow> vnode_getType (vtree s) c \<noteq> 3 \<Longrightarrow> expectNoMoreTextNodes s = s"
  by (simp add: expectNoMoreTextNodes_def)

lemma expectVirtual_virtual:
  "vCurrent s = Some c \<Longrightarrow> vnode_isVirtualVNode (vtree s) c \<Longrightarrow> expectVirtual s = s"
  by (simp add: expectVirtual_def)

lemma expectComponent_same_qrl:
  assumes "vCurrent s = Some host"
    and "vnode_getProp (vtree s) host OnRenderProp = VQrl q"
    and "vnode_getProp (vtree s) host ELEMENT_PROPS = VObj i stored"
    and "distinct (map fst prps)" "distinct (map fst stored)"
  shows "expectComponent ex q prps s =
           Inr (if map_of prps = map_of stored then s
                else s\<lparr>asyncQueue := asyncQueue s @ [(ex q host prps, host)]\<rparr>)"
  using assms shallowEqual_iff [OF assms(4,5)]
  by (simp add: expectComponent_def qrl_hash_def own_fields_def Let_def)

lemma heap_advance:
  "journal (advance s) = journal s" "vtree (advance s) = vtree s" "asyncQueue (advance s) = asyncQueue s"
  using same_heap_advance_ascend(1) [of s] by (simp_all add: same_heap_def)

text \<open>
  C4. A component descriptor is dispatched with the cursor on a virtual host whose stored
  render function has the hash of the requested one and whose stored props are the
  record \<open>stored\<close>. Then the dispatch succeeds, leaves the journal and the tree as they
  are, and enqueues nothing when the new props are shallow-equal to the stored ones, and
  exactly one pair of the expanded descriptor and the host when they are not, as when one
  prop has changed its value.
\<close>

theorem component_rerender_gate:
  assumes "jsxValue s = JSXNode (TComponent q) prps k a chs"
    and "vCurrent s = Some host" and "host \<noteq> vParent s"
    and "vnode_isVirtualVNode (vtree s) host"
    and "vnode_getProp (vtree s) host OnRenderProp = VQrl q"
    and "vnode_getProp (vtree s) host ELEMENT_PROPS = VObj i stored"
    and "distinct (map fst prps)" and "distinct (map fst stored)"
  shows "\<exists>s'. dispatch ex s = Inr s' \<and> journal s' = journal s \<and> vtree s' = vtree s
           \<and> asyncQueue s' = asyncQueue s @
                (if map_of prps = map_of stored then [] else [(ex q host prps, host)])"
proof -
  have ty: "vnode_getType (vtree s) host \<noteq> 3"
    using assms(4) by (simp add: vnode_isVirtualVNode_def vnode_getType_def)
  have a: "expectNoMoreTextNodes s = s"
    using assms(2) ty by (rule expectNoMoreTextNodes_not_text)
  have b: "expectVirtual s = s"
    using assms(2,4) by (rule expectVirtual_virtual)
  have c: "expectComponent ex q prps s =
           Inr (if map_of prps = map_of stored then s
                else s\<lparr>asyncQueue := asyncQueue s @ [(ex q host prps, host)]\<rparr>)"
    using assms(2,5,6,7,8) by (rule expectComponent_same_qrl)
  have "dispatch ex s = Inr (advance (if map_of prps = map_of stored then s
                else s\<lparr>asyncQueue := asyncQueue s @ [(ex q host prps, host)]\<rparr>))"
    using assms(1,2,3) by (auto simp add: dispatch_def a b c)
  then show ?thesis by (simp add: heap_advance)
qed

text \<open>A counter component whose host stores the props \<open>{label: 'n', value: 1}\<close>: the same
  props (in another order) enqueue nothing, the props with \<open>value: 2\<close> enqueue one pair.\<close>

definition counter :: "int \<Rightarrow> store" where
  "counter v =
     store_of [virtual [] [1] None,
       virtual [(ELEMENT_PROPS, VObj 7 [(''label'', VStr ''n''), (''value'', VNum v)]),
                (OnRenderProp, VQrl ''counter_0'')] [] (Some 0)]"

definition counter_jsx :: "int \<Rightarrow> jsx" where
  "counter_jsx v =
     JSXNode (TComponent ''counter_0'') [(''value'', VNum v), (''label'', VStr ''n'')] VNull None JUndefined"

theorem component_rerender_gate_witness:
  "(\<exists>s'. dispatch no_exec (in_frame (counter 1) 0 (Some 1) (counter_jsx 1)) = Inr s'
        \<and> asyncQueue s' = [])
   \<and> (\<exists>s'. dispatch no_exec (in_frame (counter 1) 0 (Some 1) (counter_jsx 2)) = Inr s'
        \<and> asyncQueue s' = [(no_exec ''counter_0'' 1 [(''value'', VNum 2), (''label'', VStr ''n'')], 1)])"
proof -
  let ?s = "\<lambda>v. in_frame (counter 1) 0 (Some 1) (counter_jsx v)"
  have h1: "jsxValue (?s v) = JSXNode (TComponent ''counter_0'') [(''value'', VNum v), (''label'', VStr ''n'')] VNull None JUndefined" for v
    by (simp add: in_frame_def stackPush_def counter_jsx_def Let_def)
  have h2: "vCurrent (?s v) = Some 1" for v by (simp add: in_frame_def)
  have h3: "1 \<noteq> vParent (?s v)" for v by (simp add: in_frame_def)
  have t: "vtree (?s v) = counter 1" "asyncQueue (?s v) = []" for v
    by (simp_all add: in_frame_def stackPush_def init_state_def counter_jsx_def Let_def)
  have h4: "vnode_isVirtualVNode (vtree (?s v)) 1" for v
    by (simp only: t) (simp add: vnode_isVirtualVNode_def counter_def store_of_def virtual_def)
  have h5: "vnode_getProp (vtree (?s v)) 1 OnRenderProp = VQrl ''counter_0''" for v
    by (simp only: t) (simp add: vnode_getProp_def counter_def store_of_def virtual_def OnRenderProp_def ELEMENT_PROPS_def)
  have h6: "vnode_getProp (vtree (?s v)) 1 ELEMENT_PROPS = VObj 7 [(''label'', VStr ''n''), (''value'', VNum 1)]" for v
    by (simp only: t) (simp add: vnode_getProp_def counter_def store_of_def virtual_def OnRenderProp_def ELEMENT_PROPS_def)
  have h7: "distinct (map fst [(''value'', VNum v), (''label'', VStr ''n'')])" for v by simp
  have h8: "distinct (map fst [(''label'', VStr ''n''), (''value'', VNum 1)])" by simp
  have e1: "map_of [(''value'', VNum 1), (''label'', VStr ''n'')] = map_of [(''label'', VStr ''n''), (''value'', VNum 1)]"
    by (rule ext) simp
  have e2: "map_of [(''value'', VNum 2), (''label'', VStr ''n'')] \<noteq> map_of [(''label'', VStr ''n''), (''value'', VNum 1)]"
  proof
    assume "map_of [(''value'', VNum 2), (''label'', VStr ''n'')] = map_of [(''label'', VStr ''n''), (''value'', VNum 1)]"
    then have "map_of [(''value'', VNum 2), (''label'', VStr ''n'')] ''value'' = map_of [(''label'', VStr ''n''), (''value'', VNum 1)] ''value''"
      by (rule arg_cong)
    then show False by simp
  qed
  have c1: "\<exists>s'. dispatch no_exec (?s 1) = Inr s' \<and> asyncQueue s' = []"
  proof -
    from component_rerender_gate [OF h1 [of 1] h2 [of 1] h3 [of 1] h4 [of 1] h5 [of 1] h6 [of 1] h7 [of 1] h8, of no_exec]
    obtain s' where d: "dispatch no_exec (?s 1) = Inr s'"
      and q: "asyncQueue s' = asyncQueue (?s 1) @
        (if map_of [(''value'', VNum 1), (''label'', VStr ''n'')] = map_of [(''label'', VStr ''n''), (''value'', VNum 1)]
         then [] else [(no_exec ''counter_0'' 1 [(''value'', VNum 1), (''label'', VStr ''n'')], 1)])"
      by blast
    have "asyncQueue s' = []" by (simp only: q t e1) simp
    then show ?thesis using d by blast
  qed
  have c2: "\<exists>s'. dispatch no_exec (?s 2) = Inr s'
        \<and> asyncQueue s' = [(no_exec ''counter_0'' 1 [(''value'', VNum 2), (''label'', VStr ''n'')], 1)]"
  proof -
    from component_rerender_gate [OF h1 [of 2] h2 [of 2] h3 [of 2] h4 [of 2] h5 [of 2] h6 [of 2] h7 [of 2] h8, of no_exec]
    obtain s' where d: "dispatch no_exec (?s 2) = Inr s'"
      and q: "asyncQueue s' = asyncQueue (?s 2) @
        (if map_of [(''value'', VNum 2), (''label'', VStr ''n'')] = map_of [(''label'', VStr ''n''), (''value'', VNum 1)]
         then [] else [(no_exec ''counter_0'' 1 [(''value'', VNum 2), (''label'', VStr ''n'')], 1)])"
      by blast
    have "asyncQueue s' = [(no_exec ''counter_0'' 1 [(''value'', VNum 2), (''label'', VStr ''n'')], 1)]"
      by (simp only: q t e2 if_False append_Nil)
    then show ?thesis using d by blast
  qed
  show ?thesis using c1 c2 by (intro conjI)
qed

section \<open>Keyed reorder\<close>

text \<open>A keyed element descriptor without attributes or children, and the element it
  describes in the tree: a childless element of that tag under \<open>p\<close> whose only prop is
  its key.\<close>

definition keyed :: "string \<Rightarrow> string \<Rightarrow> jsx" where
  "keyed tag key = JSXNode (TTag tag) [] (VStr key) None JUndefined"

definition keyed_leaf :: "store \<Rightarrow> nat \<Rightarrow> nat \<Rightarrow> string \<Rightarrow> string \<Rightarrow> bool" where
  "keyed_leaf t p x tag key =
     (kind (node t x) = KElement \<and> elementName (node t x) = tag \<and> children (node t x) = []
      \<and> parent (node t x) = Some p \<and> props (node t x) = [(ELEMENT_KEY, VStr key)])"

text \<open>A \<open>ul\<close> whose children are the \<open>li\<close> elements keyed \<open>A\<close>, \<open>B\<close>, \<open>C\<close> at the
  addresses 2, 3, 4, and the descriptor of the same list in the order \<open>C\<close>, \<open>A\<close>,
  \<open>B\<close>.\<close>

definition keyed_abc :: store where
  "keyed_abc =
     store_of [virtual [] [1] None, element ''ul'' [] [2, 3, 4] (Some 0),
       element ''li'' [(ELEMENT_KEY, VStr ''A'')] [] (Some 1),
       element ''li'' [(ELEMENT_KEY, VStr ''B'')] [] (Some 1),
       element ''li'' [(ELEMENT_KEY, VStr ''C'')] [] (Some 1)]"

definition cab :: jsx where
  "cab = JArray [keyed ''li'' ''C'', keyed ''li'' ''A'', keyed ''li'' ''B'']"

definition ul_cab :: jsx where
  "ul_cab = JSXNode (TTag ''ul'') [] VNull None cab"

text \<open>The same list with three different tags: \<open>div\<close> keyed \<open>A\<close>, \<open>span\<close> keyed \<open>B\<close>
  and \<open>p\<close> keyed \<open>C\<close>, and its descriptor in the order \<open>C\<close>, \<open>A\<close>, \<open>B\<close>.\<close>

definition mixed_abc :: store where
  "mixed_abc =
     store_of [virtual [] [1] None, element ''ul'' [] [2, 3, 4] (Some 0),
       element ''div'' [(ELEMENT_KEY, VStr ''A'')] [] (Some 1),
       element ''span'' [(ELEMENT_KEY, VStr ''B'')] [] (Some 1),
       element ''p'' [(ELEMENT_KEY, VStr ''C'')] [] (Some 1)]"

definition ul_mixed_cab :: jsx where
  "ul_mixed_cab =
     JSXNode (TTag ''ul'') [] VNull None
       (JArray [keyed ''p'' ''C'', keyed ''div'' ''A'', keyed ''span'' ''B''])"

lemma setBulkProps_same_key:
  "props (node (vtree s) x) = [(ELEMENT_KEY, VStr key)] \<Longrightarrow>
   setBulkProps x (element_attrs [] (VStr key) None) s = s"
  by (simp add: setBulkProps_def element_attrs_def bulk0_def Let_def)

lemma leaf_step:
  assumes "jsxIdx s < jsxCount s" and "jsxValue s = keyed tag key"
    and "vCurrent s \<noteq> Some (vParent s)"
    and "expectNoMoreTextNodes s = s"
    and "expectElement [] (VStr key) None tag s = Inr s2"
    and "(case vNewNode s2 of Some n \<Rightarrow> Some n | None \<Rightarrow> vCurrent s2) = Some x"
    and "children (node (vtree s2) x) = []"
    and "stack (advance s2) \<noteq> []"
  shows "diff_loop ex s = diff_loop ex (advance s2)"
proof -
  let ?f = "\<lparr>f_jsxChildren = jsxChildren s2, f_jsxIdx = jsxIdx s2, f_jsxCount = jsxCount s2,
             f_jsxValue = jsxValue s2,
             f_vnode = Some (vParent s2, vCurrent s2, vNewNode s2, vSiblings s2, vSiblingsIdx s2)\<rparr>"
  let ?s3 = "s2\<lparr>stack := ?f # stack s2, jsxIdx := 0, jsxValue := JNull, jsxChildren := [],
               jsxCount := 0, vSiblings := None, vSiblingsIdx := - 1, vParent := x,
               vCurrent := None, vNewNode := None\<rparr>"
  have sp: "stackPush JUndefined True s2 =
      s2\<lparr>stack := ?f # stack s2, jsxIdx := 0, jsxValue := JNull, jsxChildren := [], jsxCount := 0\<rparr>"
    by (simp add: stackPush_def Let_def)
  have de: "descend JUndefined True s2 = Inr ?s3"
    using assms(6,7) unfolding descend_def Let_def sp
    by (cases "vNewNode s2") (simp_all add: vnode_getFirstChild_def)
  have d: "dispatch ex s = Inr ?s3"
    using assms(2,3) by (simp add: dispatch_def keyed_def assms(4,5) de)
  have r: "restore ?f (?s3\<lparr>stack := stack s2\<rparr>) = s2"
    by (simp add: restore_def Let_def)
  have a: "ascend ?s3 = advance s2"
    by (simp add: ascend.simps [of ?s3] restore_def Let_def)
  have e: "expectNoMore ?s3 = Inr ?s3"
    by (simp add: expectNoMore_def)
  have "diff_loop ex s = diff_loop ex ?s3"
    using assms(1) d by (subst diff_loop.simps) simp
  also have "\<dots> = diff_loop ex (advance s2)"
    using assms(8) by (subst diff_loop.simps) (simp add: e a Let_def)
  finally show ?thesis .
qed


lemma expectNoMoreTextNodes_element:
  "vCurrent s = Some c \<Longrightarrow> kind (node (vtree s) c) = KElement \<Longrightarrow> expectNoMoreTextNodes s = s"
  by (simp add: expectNoMoreTextNodes_def vnode_getType_def)

lemma expectElement_matched:
  assumes "vCurrent s = Some x" "vNewNode s = None" "keyed_leaf (vtree s) p x tag key"
  shows "expectElement [] (VStr key) None tag s = Inr s"
  using assms setBulkProps_same_key [of s x key]
  by (simp add: expectElement_def expectElement_node_def keyed_leaf_def Let_def loose_eq_def
      vnode_isElementVNode_def vnode_getElementName_def vnode_getProp_def)

lemma expectElement_moved:
  assumes "vCurrent s = Some a" "vParent s = p" "vSiblingsIdx s = - 1"
    and "children (node (vtree s) p) = [a, b, c]" and "distinct [a, b, c]"
    and "keyed_leaf (vtree s) p a tag ka" "keyed_leaf (vtree s) p b tag kb"
      "keyed_leaf (vtree s) p c tag kc"
    and "distinct [ka, kb, kc]"
  shows "expectElement [] (VStr kc) None tag s =
     Inr (s\<lparr>vSiblings := Some [VStr ka, VNode a, VStr kb, VNode b], vSiblingsIdx := 0,
            vNewNode := Some c,
            journal := journal s @ [opcode Move, VNode p, VNode c, VNode a]\<rparr>)"
proof -
  let ?s1 = "s\<lparr>vSiblings := Some [VStr ka, VNode a, VStr kb, VNode b], vSiblingsIdx := 0\<rparr>"
  let ?s2 = "s\<lparr>vSiblings := Some [VStr ka, VNode a, VStr kb, VNode b], vSiblingsIdx := 0,
            vNewNode := Some c, journal := journal s @ [VNum 3, VNode p, VNode c, VNode a]\<rparr>"
  have f: "following (vtree s) a = [b, c]"
    using assms(4,5,6) by (simp add: following_def keyed_leaf_def)
  have ne: "kc \<noteq> ka" "kc \<noteq> kb" "kb \<noteq> ka" "ka \<noteq> kc" "kb \<noteq> kc" "ka \<noteq> kb"
    using assms(9) by auto
  have r: "retrieveChildWithKey (VStr kc) s = Inr (Some c, ?s1)"
    using assms f ne by (simp add: retrieveChildWithKey_def keyed_leaf_def Let_def vnode_getProp_def loose_eq_def)
  have n: "expectElement_node (VStr kc) tag s = Inr ?s2"
    using assms r ne
    by (simp add: expectElement_node_def keyed_leaf_def Let_def loose_eq_def node_or_null_def
        vnode_isElementVNode_def vnode_getElementName_def vnode_getProp_def)
  have b: "setBulkProps c (element_attrs [] (VStr kc) None) ?s2 = ?s2"
    using assms(8) by (intro setBulkProps_same_key) (simp add: keyed_leaf_def)
  show ?thesis
    by (simp add: expectElement_def n b)
qed


lemma move_applied:
  assumes "children (node t p) = [a, b, c]" "distinct [a, b, c]" "p \<notin> {a, b, c}"
    and "parent (node t c) = Some p"
  shows "vnode_applyJournal tree_primitives [opcode Move, VNode p, VNode c, VNode a] t =
           (Inr (vnode_insertBefore (vnode_remove t p c False) p c (Some a)), [])"
    and "children (node (vnode_insertBefore (vnode_remove t p c False) p c (Some a)) p) = [c, a, b]"
    and "node (vnode_insertBefore (vnode_remove t p c False) p c (Some a)) a = node t a"
    and "node (vnode_insertBefore (vnode_remove t p c False) p c (Some a)) b = node t b"
    and "node (vnode_insertBefore (vnode_remove t p c False) p c (Some a)) c = node t c"
    and "fresh (vnode_insertBefore (vnode_remove t p c False) p c (Some a)) = fresh t"
proof -
  show "vnode_applyJournal tree_primitives [opcode Move, VNode p, VNode c, VNode a] t =
           (Inr (vnode_insertBefore (vnode_remove t p c False) p c (Some a)), [])"
    using apply_replays [of tree_primitives "[OMove (VNode p) (VNode c) (VNode a)]" t]
    by (simp add: encode_all_def tree_primitives_def)
qed (use assms in \<open>auto simp add: vnode_insertBefore_def vnode_remove_def upd_node_def insert_before_def\<close>)

lemma keyed_reorder_loop:
  assumes J: "jsxChildren s = [keyed tag kc, keyed tag ka, keyed tag kb]"
      "jsxIdx s = 0" "jsxCount s = 3" "jsxValue s = keyed tag kc"
    and V: "vParent s = p" "vCurrent s = Some a" "vNewNode s = None" "vSiblings s = None"
      "vSiblingsIdx s = - 1"
    and S: "stack s = f # fs" "f_vnode f \<noteq> None"
    and T: "children (node (vtree s) p) = [a, b, c]" "distinct [a, b, c]" "p \<notin> {a, b, c}"
    and L: "keyed_leaf (vtree s) p a tag ka" "keyed_leaf (vtree s) p b tag kb"
      "keyed_leaf (vtree s) p c tag kc"
    and K: "distinct [ka, kb, kc]"
  shows "diff_loop ex s =
           diff_loop ex
             (s\<lparr>vSiblings := Some [VStr ka, VNode a, VStr kb, VNode b], vSiblingsIdx := 4,
                journal := journal s @ [opcode Move, VNode p, VNode c, VNode a],
                jsxIdx := 3, jsxValue := keyed tag kb, vCurrent := None\<rparr>)"
proof -
  let ?sibs = "[VStr ka, VNode a, VStr kb, VNode b]"
  let ?j = "journal s @ [VNum 3, VNode p, VNode c, VNode a]"
  let ?sm = "s\<lparr>vSiblings := Some ?sibs, vSiblingsIdx := 0, vNewNode := Some c, journal := ?j\<rparr>"
  let ?s1 = "s\<lparr>vSiblings := Some ?sibs, vSiblingsIdx := 0, journal := ?j,
               jsxIdx := 1, jsxValue := keyed tag ka\<rparr>"
  let ?s2 = "s\<lparr>vSiblings := Some ?sibs, vSiblingsIdx := 2, journal := ?j,
               jsxIdx := 2, jsxValue := keyed tag kb, vCurrent := Some b\<rparr>"
  let ?s3 = "s\<lparr>vSiblings := Some ?sibs, vSiblingsIdx := 4, journal := ?j,
               jsxIdx := 3, jsxValue := keyed tag kb, vCurrent := None\<rparr>"
  have ntf: "\<not> top_is_false (stack s)" using S by (simp add: top_is_false_def)
  have el: "kind (node (vtree s) a) = KElement" "kind (node (vtree s) b) = KElement"
    "children (node (vtree s) a) = []" "children (node (vtree s) b) = []"
    "children (node (vtree s) c) = []"
    using L by (simp_all add: keyed_leaf_def)
  have a1: "advance ?sm = ?s1"
    using J V by (subst advance.simps) (simp add: Let_def nth_jsx_def advance_cursor_def)
  have a2: "advance ?s1 = ?s2"
    using J V by (subst advance.simps) (simp add: Let_def nth_jsx_def advance_cursor_def
        nth_js_def as_vnode_def)
  have a3: "advance ?s2 = ?s3"
    using J V ntf by (subst advance.simps) (simp add: Let_def nth_jsx_def advance_cursor_def
        nth_js_def as_vnode_def)
  have "diff_loop ex s = diff_loop ex (advance ?sm)"
  proof (rule leaf_step [where tag = tag and key = kc and x = c])
    show "jsxIdx s < jsxCount s" using J by simp
    show "jsxValue s = keyed tag kc" using J by simp
    show "vCurrent s \<noteq> Some (vParent s)" using V T by auto
    show "expectNoMoreTextNodes s = s"
      using V el by (intro expectNoMoreTextNodes_element [where c = a]) simp_all
    show "expectElement [] (VStr kc) None tag s = Inr ?sm"
      using expectElement_moved [OF V(2) V(1) V(5) T(1) T(2) L K] by simp
    show "(case vNewNode ?sm of Some n \<Rightarrow> Some n | None \<Rightarrow> vCurrent ?sm) = Some c" by simp
    show "children (node (vtree ?sm) c) = []" using el by simp
    show "stack (advance ?sm) \<noteq> []" unfolding a1 using S by simp
  qed
  also have "\<dots> = diff_loop ex (advance ?s1)"
    unfolding a1
  proof (rule leaf_step [where tag = tag and key = ka and x = a])
    show "jsxIdx ?s1 < jsxCount ?s1" using J by simp
    show "jsxValue ?s1 = keyed tag ka" by simp
    show "vCurrent ?s1 \<noteq> Some (vParent ?s1)" using V T by auto
    show "expectNoMoreTextNodes ?s1 = ?s1"
      using V el by (intro expectNoMoreTextNodes_element [where c = a]) simp_all
    show "expectElement [] (VStr ka) None tag ?s1 = Inr ?s1"
      using V L by (intro expectElement_matched [where p = p and x = a]) simp_all
    show "(case vNewNode ?s1 of Some n \<Rightarrow> Some n | None \<Rightarrow> vCurrent ?s1) = Some a"
      using V by simp
    show "children (node (vtree ?s1) a) = []" using el by simp
    show "stack (advance ?s1) \<noteq> []" unfolding a2 using S by simp
  qed
  also have "\<dots> = diff_loop ex (advance ?s2)"
    unfolding a2
  proof (rule leaf_step [where tag = tag and key = kb and x = b])
    show "jsxIdx ?s2 < jsxCount ?s2" using J by simp
    show "jsxValue ?s2 = keyed tag kb" by simp
    show "vCurrent ?s2 \<noteq> Some (vParent ?s2)" using V T by auto
    show "expectNoMoreTextNodes ?s2 = ?s2"
      using V el by (intro expectNoMoreTextNodes_element [where c = b]) simp_all
    show "expectElement [] (VStr kb) None tag ?s2 = Inr ?s2"
      using V L by (intro expectElement_matched [where p = p and x = b]) simp_all
    show "(case vNewNode ?s2 of Some n \<Rightarrow> Some n | None \<Rightarrow> vCurrent ?s2) = Some b"
      using V by simp
    show "children (node (vtree ?s2) b) = []" using el by simp
    show "stack (advance ?s2) \<noteq> []" unfolding a3 using S by simp
  qed
  finally have "diff_loop ex s = diff_loop ex ?s3" unfolding a3 .
  then show ?thesis by simp
qed

lemma keyed_abc_run:
  "journal_of (vnode_diff no_exec 0 keyed_abc [] ul_cab 0)
     = Some (encode_all [OMove (VNode 1) (VNode 4) (VNode 2)])
   \<and> map_option (\<lambda>t. children (node t 1)) (diff_then_apply no_exec 0 keyed_abc ul_cab 0) = Some [4, 2, 3]
   \<and> map_option (\<lambda>t. map (node t) [2, 3, 4]) (diff_then_apply no_exec 0 keyed_abc ul_cab 0)
        = Some (map (node keyed_abc) [2, 3, 4])
   \<and> map_option fresh (diff_then_apply no_exec 0 keyed_abc ul_cab 0) = Some (fresh keyed_abc)"
  by code_simp

text \<open>
  Where the three elements have one tag the reorder is a single move. A frame whose parent
  has the three keyed childless elements \<open>a\<close>, \<open>b\<close>, \<open>c\<close> (distinct keys \<open>ka\<close>, \<open>kb\<close>,
  \<open>kc\<close>, one tag) as children, diffed against the descriptors in the order \<open>c\<close>, \<open>a\<close>,
  \<open>b\<close>, runs on as from the state \<open>s'\<close> in which the three descriptors are consumed and the
  journal has grown by exactly one entry, the \<open>Move\<close> of \<open>c\<close> in front of \<open>a\<close>; closing
  the frame appends nothing. Applying that entry leaves the parent with the same three nodes
  in the order \<open>c\<close>, \<open>a\<close>, \<open>b\<close>, each node as it was, and no node created.
\<close>

lemma keyed_reorder_same_tag:
  assumes "jsxChildren s = [keyed tag kc, keyed tag ka, keyed tag kb]"
      and "jsxIdx s = 0" and "jsxCount s = 3" and "jsxValue s = keyed tag kc"
    and "vParent s = p" and "vCurrent s = Some a" and "vNewNode s = None"
      and "vSiblings s = None" and "vSiblingsIdx s = - 1"
    and "stack s = f # fs" and "f_vnode f \<noteq> None"
    and "children (node (vtree s) p) = [a, b, c]" and "distinct [a, b, c]" and "p \<notin> {a, b, c}"
    and "keyed_leaf (vtree s) p a tag ka" and "keyed_leaf (vtree s) p b tag kb"
      and "keyed_leaf (vtree s) p c tag kc"
    and "distinct [ka, kb, kc]"
    and "s' = s\<lparr>vSiblings := Some [VStr ka, VNode a, VStr kb, VNode b], vSiblingsIdx := 4,
                 journal := journal s @ encode_all [OMove (VNode p) (VNode c) (VNode a)],
                 jsxIdx := 3, jsxValue := keyed tag kb, vCurrent := None\<rparr>"
    and "t' = vnode_insertBefore (vnode_remove (vtree s) p c False) p c (Some a)"
  shows "diff_loop ex s = diff_loop ex s'
     \<and> \<not> jsxIdx s' < jsxCount s' \<and> expectNoMore s' = Inr s'
     \<and> vnode_applyJournal tree_primitives (encode_all [OMove (VNode p) (VNode c) (VNode a)]) (vtree s')
           = (Inr t', [])
     \<and> children (node t' p) = [c, a, b]
     \<and> node t' a = node (vtree s) a \<and> node t' b = node (vtree s) b \<and> node t' c = node (vtree s) c
     \<and> fresh t' = fresh (vtree s)"
proof -
  have e: "encode_all [OMove (VNode p) (VNode c) (VNode a)] = [opcode Move, VNode p, VNode c, VNode a]"
    by (simp add: encode_all_def)
  have pc: "parent (node (vtree s) c) = Some p"
    using assms(17) by (simp add: keyed_leaf_def)
  have l: "diff_loop ex s = diff_loop ex s'"
    unfolding assms(19) e
    by (rule keyed_reorder_loop [OF assms(1-18)])
  have x: "\<not> jsxIdx s' < jsxCount s'" "expectNoMore s' = Inr s'" "vtree s' = vtree s"
    using assms(3) by (simp_all add: assms(19) expectNoMore_def)
  note m = move_applied [OF assms(12,13,14) pc]
  show ?thesis
    using l x m unfolding assms(20) e by simp
qed

lemma keyed_reorder_same_tag_example:
  "diff_loop no_exec (in_frame keyed_abc 1 (Some 2) cab) =
     diff_loop no_exec
       ((in_frame keyed_abc 1 (Some 2) cab)
          \<lparr>vSiblings := Some [VStr ''A'', VNode 2, VStr ''B'', VNode 3], vSiblingsIdx := 4,
           journal := journal (in_frame keyed_abc 1 (Some 2) cab)
                        @ encode_all [OMove (VNode 1) (VNode 4) (VNode 2)],
           jsxIdx := 3, jsxValue := keyed ''li'' ''B'', vCurrent := None\<rparr>)
   \<and> children (node (vnode_insertBefore (vnode_remove keyed_abc 1 4 False) 1 4 (Some 2)) 1) = [4, 2, 3]
   \<and> journal_of (vnode_diff no_exec 0 keyed_abc [] ul_cab 0)
     = Some (encode_all [OMove (VNode 1) (VNode 4) (VNode 2)])
   \<and> map_option (\<lambda>t. children (node t 1)) (diff_then_apply no_exec 0 keyed_abc ul_cab 0) = Some [4, 2, 3]
   \<and> map_option (\<lambda>t. map (node t) [2, 3, 4]) (diff_then_apply no_exec 0 keyed_abc ul_cab 0)
        = Some (map (node keyed_abc) [2, 3, 4])
   \<and> map_option fresh (diff_then_apply no_exec 0 keyed_abc ul_cab 0) = Some (fresh keyed_abc)"
proof -
  let ?s = "in_frame keyed_abc 1 (Some 2) cab"
  have st: "jsxChildren ?s = [keyed ''li'' ''C'', keyed ''li'' ''A'', keyed ''li'' ''B'']"
    "jsxIdx ?s = 0" "jsxCount ?s = 3" "jsxValue ?s = keyed ''li'' ''C''"
    "vParent ?s = 1" "vCurrent ?s = Some 2" "vNewNode ?s = None" "vSiblings ?s = None"
    "vSiblingsIdx ?s = - 1"
    by (simp_all add: in_frame_def cab_def stackPush_def init_state_def Let_def nth_jsx_def)
  let ?f = "\<lparr>f_jsxChildren = [], f_jsxIdx = 0, f_jsxCount = 0, f_jsxValue = JNull,
             f_vnode = Some (0 :: nat, None :: nat option, None :: nat option,
                             None :: jsval list option, - 1 :: int)\<rparr>"
  have sk: "stack ?s = ?f # []" "f_vnode ?f \<noteq> None"
    by (simp_all add: in_frame_def cab_def stackPush_def init_state_def Let_def)
  have vt: "vtree ?s = keyed_abc"
    by (simp add: in_frame_def cab_def stackPush_def init_state_def Let_def)
  have tr: "children (node (vtree ?s) 1) = [2, 3, 4]" "distinct [2 :: nat, 3, 4]" "(1 :: nat) \<notin> {2, 3, 4}"
    "keyed_leaf (vtree ?s) 1 2 ''li'' ''A''" "keyed_leaf (vtree ?s) 1 3 ''li'' ''B''"
    "keyed_leaf (vtree ?s) 1 4 ''li'' ''C''" "distinct [''A'', ''B'', ''C'']"
    unfolding vt by (simp_all add: keyed_abc_def store_of_def keyed_leaf_def element_def)
  note G = keyed_reorder_same_tag [OF st sk tr refl refl, of no_exec]
  have c1: "diff_loop no_exec ?s =
     diff_loop no_exec
       (?s\<lparr>vSiblings := Some [VStr ''A'', VNode 2, VStr ''B'', VNode 3], vSiblingsIdx := 4,
           journal := journal ?s @ encode_all [OMove (VNode 1) (VNode 4) (VNode 2)],
           jsxIdx := 3, jsxValue := keyed ''li'' ''B'', vCurrent := None\<rparr>)"
    using G [THEN conjunct1] .
  have c2: "children (node (vnode_insertBefore (vnode_remove keyed_abc 1 4 False) 1 4 (Some 2)) 1) = [4, 2, 3]"
    using G [THEN conjunct2, THEN conjunct2, THEN conjunct2, THEN conjunct2, THEN conjunct1]
    unfolding vt .
  show ?thesis using c1 c2 keyed_abc_run by (intro conjI) simp_all
qed

text \<open>
  C3 fails on the code. \<open>expectElement\<close> assigns \<open>jsxKey\<close> inside the condition, after
  the test of the tag: when the tag of the descriptor is not the tag of the cursor,
  \<open>jsxKey\<close> stays \<open>undefined\<close>, and the forward search that the code then makes looks
  for the key \<open>undefined\<close> instead of the key of the descriptor. With the children
  \<open>div\<close>/\<open>A\<close>, \<open>span\<close>/\<open>B\<close>, \<open>p\<close>/\<open>C\<close> and the descriptors in the order \<open>C\<close>,
  \<open>A\<close>, \<open>B\<close> (same tags, same keys) the node keyed \<open>C\<close> is not found: the journal
  holds no \<open>Move\<close> but the \<open>Insert\<close> of a new \<open>p\<close> element, the \<open>Attributes\<close> that
  give it the key \<open>C\<close>, and the \<open>Truncate\<close> of the old node \<open>C\<close>. After the journal is
  applied the third node is unlinked and a node that did not exist before stands first.
  With one tag for the three elements the journal is the single \<open>Move\<close>.
\<close>

theorem keyed_reorder_mixed_tags:
  "children (node mixed_abc 1) = [2, 3, 4] \<and> fresh mixed_abc = 5
   \<and> journal_of (vnode_diff no_exec 0 mixed_abc [] ul_mixed_cab 0)
     = Some (encode_all [OInsert (VNode 1) (VNode 5) (VNode 2),
                         OAttributes (VNode 5) [(ELEMENT_KEY, VStr ''C'')],
                         OTruncate (VNode 1) (VNode 4)])
   \<and> map_option (\<lambda>t. (children (node t 1), parent (node t 4), elementName (node t 5), props (node t 5)))
        (diff_then_apply no_exec 0 mixed_abc ul_mixed_cab 0)
     = Some ([5, 2, 3], None, ''p'', [(ELEMENT_KEY, VStr ''C'')])
   \<and> journal_of (vnode_diff no_exec 0 keyed_abc [] ul_cab 0)
     = Some (encode_all [OMove (VNode 1) (VNode 4) (VNode 2)])"
  by code_simp


section \<open>Diffing the same descriptor again\<close>

text \<open>A \<open>div\<close> that holds a \<open>span\<close>, and the descriptor of a \<open>div\<close> whose only child is
  the text \<open>a\<close>. \<open>rediff\<close> diffs a descriptor, applies the journal, and diffs the same
  descriptor against the tree that came out.\<close>

definition div_with_span :: store where
  "div_with_span =
     store_of [virtual [] [1] None, element ''div'' [] [2] (Some 0), element ''span'' [] [] (Some 1)]"

definition div_a :: jsx where
  "div_a = JSXNode (TTag ''div'') [] VNull None (JString ''a'')"

definition rediff :: "store \<Rightarrow> jsx \<Rightarrow> jsval list option" where
  "rediff t d =
     (case diff_then_apply no_exec 0 t d 0 of
        None \<Rightarrow> None
      | Some t' \<Rightarrow> journal_of (vnode_diff no_exec 0 t' [] d 0))"

text \<open>
  C1 fails on the code. The first diff inserts the text node in front of the \<open>span\<close>;
  \<open>expectText\<close> does not set \<open>vNewNode\<close>, so \<open>advance\<close> moves the cursor past the
  \<open>span\<close>, which is then neither matched nor truncated. The tree that comes out holds the
  text and the \<open>span\<close>, and diffing the same descriptor against it appends a \<open>Truncate\<close>
  of the \<open>span\<close>: the journal is not empty.
\<close>

theorem rediff_after_text_insert:
  "journal_of (vnode_diff no_exec 0 div_with_span [] div_a 0)
     = Some [opcode Insert, VNode 1, VNode 3, VNode 2]
   \<and> map_option (\<lambda>t. children (node t 1)) (diff_then_apply no_exec 0 div_with_span div_a 0) = Some [3, 2]
   \<and> rediff div_with_span div_a = Some [opcode Truncate, VNode 1, VNode 2]"
  by code_simp


section \<open>What a diff pass does to the tree\<close>

text \<open>
  The shape of a node is its kind, name, text, child list and parent. A store \<open>t'\<close>
  extends \<open>t\<close> when it has at least the addresses of \<open>t\<close> and every node of \<open>t\<close> has
  in \<open>t'\<close> the shape it had, the properties it had except possibly the stored render
  function, and its dispatch adapter if it had one. \<open>grows\<close> adds that the journal has
  only been appended to. \<open>keeps f t t'\<close> says that the field \<open>f\<close> of every node of \<open>t\<close>
  is in \<open>t'\<close> what it was.
\<close>

definition shape_of :: "vnode \<Rightarrow> vkind \<times> string \<times> string \<times> nat list \<times> nat option" where
  "shape_of x = (kind x, elementName x, textValue x, children x, parent x)"

definition extends :: "store \<Rightarrow> store \<Rightarrow> bool" where
  "extends t t' =
     (fresh t \<le> fresh t' \<and>
      (\<forall>n. n < fresh t \<longrightarrow>
         shape_of (node t' n) = shape_of (node t n) \<and>
         (\<forall>k. k \<noteq> OnRenderProp \<longrightarrow> map_of (props (node t' n)) k = map_of (props (node t n)) k) \<and>
         (qDispatchEvent (node t n) \<longrightarrow> qDispatchEvent (node t' n))))"

definition keeps :: "(vnode \<Rightarrow> 'a) \<Rightarrow> store \<Rightarrow> store \<Rightarrow> bool" where
  "keeps f t t' = (fresh t \<le> fresh t' \<and> (\<forall>n. n < fresh t \<longrightarrow> f (node t' n) = f (node t n)))"


definition grows :: "dstate \<Rightarrow> dstate \<Rightarrow> bool" where
  "grows s s' = (extends (vtree s) (vtree s') \<and> (\<exists>x. journal s' = journal s @ x))"



lemma extends_refl [simp]: "extends t t"
  by (simp add: extends_def)


lemma grows_refl [simp]: "grows s s"
  by (simp add: grows_def)


lemma grows_same: "vtree s' = vtree s \<Longrightarrow> journal s' = journal s \<Longrightarrow> grows s s'"
  by (simp add: grows_def)




























lemma fresh_upd_node [simp]: "fresh (upd_node n f t) = fresh t"
  by (simp add: upd_node_def)




lemma keeps_refl [simp]: "keeps f t t"
  by (simp add: keeps_def)



lemma keeps_advance: "keeps f (vtree s) (vtree (advance s))"
  using same_heap_advance_ascend(1) [of s] by (simp add: same_heap_def)


lemma vtree_expectNoMoreTextNodes [simp]: "vtree (expectNoMoreTextNodes s) = vtree s"
  by (simp add: expectNoMoreTextNodes_def Let_def split: option.splits prod.splits)







lemma vtree_stackPush [simp]: "vtree (stackPush chs b s) = vtree s"
  by (cases chs) (simp_all add: stackPush_def Let_def)


lemma vtree_advance [simp]: "vtree (advance s) = vtree s"
  using same_heap_advance_ascend(1) [of s] by (simp add: same_heap_def)

lemma vtree_ascend [simp]: "vtree (ascend s) = vtree s"
  using same_heap_advance_ascend(2) [of s] by (simp add: same_heap_def)























end
